theory Spec2Isabelle
  imports Complex_Main
begin

section \<open>Python exceptions as values\<close>

text \<open>
  Every exception that the embedded functions of
  \<^verbatim>\<open>elefant/data/annotation_action_mapping.py\<close> can raise is a constructor of
  \<open>py_error\<close>, named after the Python exception class; the string carries the
  message (or the missing key, attribute or name).  A function that can raise
  returns \<open>py_error + 'a\<close>, with \<open>Inl\<close> for the exception.

  \<open>NotModelled\<close> is not a Python exception.  It marks the places where the
  embedding stops, all of them on lists of records that are not built alike:
  \<^verbatim>\<open>np.concatenate\<close> coerces operands that are not arrays with \<^verbatim>\<open>np.asarray\<close>, and
  \<^verbatim>\<open>getattr\<close> and \<^verbatim>\<open>.shape\<close> on an object of another class find whatever attribute of
  that name the class has.  No theorem below concludes \<open>NotModelled\<close>.
\<close>

datatype py_error =
    IndexError string
  | KeyError string
  | AttributeError string
  | AssertionError string
  | ValueError string
  | TypeError string
  | RuntimeError string
  | NameError string
  | OverflowError string
  | NotModelled string

section \<open>Numeric primitives of numpy, over the reals\<close>

text \<open>
  Floating-point numbers are modelled as real numbers, so every statement below is
  about exact arithmetic; IEEE rounding, infinities and NaN are outside the model.
  Division by zero and logarithms of non-positive numbers give infinities or NaN
  in numpy and some fixed real in HOL: the theorems about the quantizer therefore
  carry the hypotheses (positive \<open>camera_binsize\<close>, \<open>camera_maxval\<close> and \<open>mu\<close>) under
  which the source computes with finite numbers only.
\<close>

definition np_clip :: "real \<Rightarrow> real \<Rightarrow> real \<Rightarrow> real" where
  \<comment> \<open>\<^verbatim>\<open>np.clip(x, a_min, a_max)\<close> is \<^verbatim>\<open>minimum(a_max, maximum(x, a_min))\<close>.\<close>
  "np_clip x a_min a_max = min a_max (max x a_min)"

definition np_sign :: "real \<Rightarrow> real" where
  "np_sign x = (if x < 0 then -1 else if x = 0 then 0 else 1)"

definition np_round :: "real \<Rightarrow> int" where
  \<comment> \<open>\<^verbatim>\<open>np.round\<close> rounds to the nearest integer and a tie to the even neighbour.\<close>
  "np_round x =
     (let f = \<lfloor>x\<rfloor>; d = x - of_int f
      in if d < 1/2 then f
         else if 1/2 < d then f + 1
         else if even f then f else f + 1)"

section \<open>CameraQuantizer\<close>

definition LINEAR :: string where
  "LINEAR = ''linear''"

definition MU_LAW :: string where
  "MU_LAW = ''mu_law''"

record CameraQuantizer =
  camera_maxval :: int
  camera_binsize :: int
  quantization_scheme :: string
  mu :: real

text \<open>
  The class is an \<^verbatim>\<open>attr.s\<close> class.  Its generated constructor stores the four
  fields and runs the validators that the fields declare.  Only
  \<^verbatim>\<open>quantization_scheme\<close> declares one, \<^verbatim>\<open>attr.validators.in_([LINEAR, MU_LAW])\<close>,
  which raises \<^verbatim>\<open>ValueError\<close>; \<^verbatim>\<open>camera_maxval\<close>, \<^verbatim>\<open>camera_binsize\<close> and \<^verbatim>\<open>mu\<close>
  have none, and the type annotations are not enforced at run time.
\<close>

definition new_CameraQuantizer ::
  "int \<Rightarrow> int \<Rightarrow> string \<Rightarrow> real \<Rightarrow> py_error + CameraQuantizer" where
  "new_CameraQuantizer maxval binsize scheme m =
     (if scheme \<in> set [LINEAR, MU_LAW]
      then Inr \<lparr>camera_maxval = maxval, camera_binsize = binsize,
                quantization_scheme = scheme, mu = m\<rparr>
      else Inl (ValueError ''quantization_scheme must be in [linear, mu_law]''))"

text \<open>
  \<^verbatim>\<open>discretize\<close> and \<^verbatim>\<open>undiscretize\<close> work elementwise on an array; \<open>discretize_elem\<close>
  and \<open>undiscretize_elem\<close> are what they do to one element.  The \<open>let\<close> bindings
  follow the assignments of the source line by line.
\<close>

definition discretize_elem :: "CameraQuantizer \<Rightarrow> real \<Rightarrow> int" where
  "discretize_elem q x =
     (let xy = np_clip x (- of_int (camera_maxval q)) (of_int (camera_maxval q));
          xy = (if quantization_scheme q = MU_LAW
                then (let xy = xy / of_int (camera_maxval q);
                          v_encode = np_sign xy * (ln (1 + mu q * \<bar>xy\<bar>) / ln (1 + mu q));
                          v_encode = v_encode * of_int (camera_maxval q)
                      in v_encode)
                else xy)
      in np_round ((xy + of_int (camera_maxval q)) / of_int (camera_binsize q)))"

definition undiscretize_elem :: "CameraQuantizer \<Rightarrow> real \<Rightarrow> real" where
  "undiscretize_elem q p =
     (let xy = p * of_int (camera_binsize q) - of_int (camera_maxval q)
      in if quantization_scheme q = MU_LAW
         then (let xy = xy / of_int (camera_maxval q);
                   v_decode = np_sign xy * (1 / mu q) * ((1 + mu q) powr \<bar>xy\<bar> - 1);
                   v_decode = v_decode * of_int (camera_maxval q)
               in v_decode)
         else xy)"

section \<open>Arrays\<close>

text \<open>
  A numpy array (and a torch tensor) is its shape and its elements in row-major
  order.  Element types are not modelled: the elements are reals, and an integer
  array is an array whose elements are integers.  A Python scalar handed to numpy
  is the zero-dimensional array of shape \<open>[]\<close> with one element.  An array value of
  Python always satisfies \<open>wf_ndarray\<close>.
\<close>

record ndarray =
  shape :: "nat list"
  data :: "real list"

definition wf_ndarray :: "ndarray \<Rightarrow> bool" where
  "wf_ndarray a \<longleftrightarrow> length (data a) = prod_list (shape a)"

definition discretize :: "CameraQuantizer \<Rightarrow> ndarray \<Rightarrow> ndarray" where
  "discretize q xy = \<lparr>shape = shape xy, data = map (\<lambda>x. of_int (discretize_elem q x)) (data xy)\<rparr>"


definition np_stack_last :: "ndarray list \<Rightarrow> py_error + ndarray" where
  \<comment> \<open>\<^verbatim>\<open>np.stack(arrays, axis=-1)\<close>: the arrays must have one shape \<open>s\<close>; the result has
      shape \<open>s @ [n]\<close> and its last axis runs over the \<open>n\<close> arrays.\<close>
  "np_stack_last arrays =
     (case arrays of
        [] \<Rightarrow> Inl (ValueError ''need at least one array to stack'')
      | a # _ \<Rightarrow>
          if \<forall>b \<in> set arrays. shape b = shape a
          then Inr \<lparr>shape = shape a @ [length arrays],
                    data = concat (transpose (map data arrays))\<rparr>
          else Inl (ValueError ''all input arrays must have the same shape''))"


section \<open>Dictionaries\<close>

text \<open>
  A Python \<^verbatim>\<open>dict\<close> with string keys is an association list in insertion order;
  \<open>map_of\<close> reads it.  \<open>dict_set\<close> is the assignment \<^verbatim>\<open>d[k] = v\<close>: it replaces the
  value of a key that is present and appends a new key at the end.
\<close>

fun dict_set :: "string \<Rightarrow> 'v \<Rightarrow> (string \<times> 'v) list \<Rightarrow> (string \<times> 'v) list" where
  "dict_set k v [] = [(k, v)]"
| "dict_set k v ((k', v') # d) =
     (if k = k' then (k, v) # d else (k', v') # dict_set k v d)"

section \<open>The constants of \<^verbatim>\<open>elefant.data.const\<close>\<close>

text \<open>
  The module \<^verbatim>\<open>elefant/data/const.py\<close>, which the source imports with
  \<^verbatim>\<open>from elefant.data.const import *\<close>, is not part of the sources at hand.  Its tables
  are parameters of the embedding: every function that reads one takes the record
  \<open>const\<close>.  Whether that import also binds the name \<^verbatim>\<open>th\<close> (the source imports
  \<^verbatim>\<open>torch\<close> under the name \<^verbatim>\<open>torch\<close> only, and uses \<^verbatim>\<open>th.Tensor\<close> and \<^verbatim>\<open>th.cat\<close>) is the
  field \<open>th_bound\<close>.
\<close>

datatype env_value = PyInt int | NdArr ndarray

record const =
  Buttons_ALL :: "string list"
  NOOP_ACTION :: "(string \<times> env_value) list"
  KEYBOARD_BUTTON_MAPPING :: "(string \<times> string) list"
  IGNORED_KEYS :: "string list"
  CAMERA_SCALER :: real
  th_bound :: bool

section \<open>ActionTransformer\<close>

text \<open>
  \<^verbatim>\<open>ActionTransformer.__init__\<close> takes the four camera arguments and stores one
  attribute, \<^verbatim>\<open>self.quantizer\<close>.  The decorator \<^verbatim>\<open>@store_args\<close> above it is commented
  out, so no other attribute of the instance exists.
\<close>

record ActionTransformer =
  quantizer :: CameraQuantizer

definition new_ActionTransformer ::
  "int \<Rightarrow> int \<Rightarrow> string \<Rightarrow> real \<Rightarrow> py_error + ActionTransformer" where
  "new_ActionTransformer camera_maxval' camera_binsize' camera_quantization_scheme camera_mu =
     (case new_CameraQuantizer camera_maxval' camera_binsize' camera_quantization_scheme camera_mu of
        Inl e \<Rightarrow> Inl e
      | Inr q \<Rightarrow> Inr \<lparr>quantizer = q\<rparr>)"

definition self_human_spaces :: "ActionTransformer \<Rightarrow> py_error + bool" where
  \<comment> \<open>The attribute read \<^verbatim>\<open>self.human_spaces\<close>: neither the instance nor the class has
      such an attribute.\<close>
  "self_human_spaces self = Inl (AttributeError ''human_spaces'')"

definition discretize_camera :: "ActionTransformer \<Rightarrow> ndarray \<Rightarrow> ndarray" where
  "discretize_camera self xy = discretize (quantizer self) xy"


definition np_asarray :: "env_value \<Rightarrow> ndarray" where
  \<comment> \<open>What \<^verbatim>\<open>np.stack\<close> makes of an operand: a Python integer becomes a
      zero-dimensional array.\<close>
  "np_asarray v = (case v of PyInt i \<Rightarrow> \<lparr>shape = [], data = [of_int i]\<rparr> | NdArr a \<Rightarrow> a)"

definition SyntheticButtons_ALL :: "string list" where
  "SyntheticButtons_ALL = [''channel-attack'']"

definition dict_to_numpy ::
  "const \<Rightarrow> ActionTransformer \<Rightarrow> (string \<times> env_value) list \<Rightarrow> py_error + (string \<times> ndarray) list" where
  \<comment> \<open>The dictionary display evaluates its values in order, then
      \<^verbatim>\<open>self.human_spaces\<close> is read.  In the branch \<^verbatim>\<open>not self.human_spaces\<close> the
      synthetic buttons are stacked and \<^verbatim>\<open>self.item_embed_name_to_id\<close>, a method the
      class does not define, is looked up.\<close>
  "dict_to_numpy C self acs =
     (case np_stack_last
             (map (\<lambda>k. case map_of acs k of None \<Rightarrow> np_asarray (PyInt 0) | Some v \<Rightarrow> np_asarray v)
                  (Buttons_ALL C)) of
        Inl e \<Rightarrow> Inl e
      | Inr buttons \<Rightarrow>
         (case map_of acs ''camera'' of
            None \<Rightarrow> Inl (KeyError ''camera'')
          | Some cam \<Rightarrow>
             (let act = [(''buttons'', buttons),
                         (''camera'', discretize_camera self (np_asarray cam))]
              in case self_human_spaces self of
                   Inl e \<Rightarrow> Inl e
                 | Inr human_spaces \<Rightarrow>
                     if \<not> human_spaces
                     then (case filter (\<lambda>k. map_of acs k = None) SyntheticButtons_ALL of
                             k # _ \<Rightarrow> Inl (KeyError k)
                           | [] \<Rightarrow> Inl (AttributeError ''item_embed_name_to_id''))
                     else Inr act)))"



definition env2policy ::
  "const \<Rightarrow> ActionTransformer \<Rightarrow> (string \<times> env_value) list \<Rightarrow> py_error + (string \<times> ndarray) list" where
  "env2policy C self acs =
     (case map_of acs ''camera'' of
        None \<Rightarrow> Inl (KeyError ''camera'')
      | Some (PyInt _) \<Rightarrow> Inl (AttributeError ''shape'')
      | Some (NdArr cam) \<Rightarrow>
         (case shape cam of
            [] \<Rightarrow> Inl (IndexError ''tuple index out of range'')
          | nbatch # _ \<Rightarrow>
             (let dummy = \<lparr>shape = [nbatch], data = replicate nbatch 0\<rparr>;
                  camera = discretize_camera self cam
              in case np_stack_last
                        (map (\<lambda>k. case map_of acs k of None \<Rightarrow> dummy | Some v \<Rightarrow> np_asarray v)
                             (Buttons_ALL C)) of
                   Inl e \<Rightarrow> Inl e
                 | Inr buttons \<Rightarrow> Inr [(''camera'', camera), (''buttons'', buttons)])))"


section \<open>ProtoToTorchActionMapper: decoding a recorded event\<close>

text \<open>
  The event is the protobuf message \<^verbatim>\<open>LowLevelAction\<close>; the decoder reads
  \<^verbatim>\<open>keyboard.keys\<close>, \<^verbatim>\<open>mouse.dx\<close>, \<^verbatim>\<open>mouse.dy\<close> and \<^verbatim>\<open>mouse.buttons\<close> (a repeated
  field, so a list).
\<close>

record LowLevelAction =
  keyboard_keys :: "string list"
  mouse_dx :: real
  mouse_dy :: real
  mouse_buttons :: "int list"

text \<open>
  Line 200 of the source creates the camera array as \<^verbatim>\<open>np.array([0, 0])\<close>, an array of
  64-bit integers.  Storing a Python float into an element of it converts the float to
  an integer as \<^verbatim>\<open>int\<close> does, truncating towards zero, and raises \<^verbatim>\<open>OverflowError\<close> when
  that integer does not fit 64 bits.  \<^verbatim>\<open>abs\<close> of an \<^verbatim>\<open>int64\<close> wraps at the least value.
\<close>

definition truncate_toward_zero :: "real \<Rightarrow> int" where
  "truncate_toward_zero v = (if 0 \<le> v then \<lfloor>v\<rfloor> else \<lceil>v\<rceil>)"

definition fits_int64 :: "real \<Rightarrow> bool" where
  "fits_int64 v \<longleftrightarrow> - (2 ^ 63) \<le> truncate_toward_zero v \<and> truncate_toward_zero v < 2 ^ 63"

definition float_to_int64 :: "real \<Rightarrow> py_error + int" where
  "float_to_int64 v =
     (if fits_int64 v then Inr (truncate_toward_zero v)
      else Inl (OverflowError ''Python int too large to convert to C long''))"

definition abs_int64 :: "int \<Rightarrow> int" where
  "abs_int64 i = (if i = - (2 ^ 63) then - (2 ^ 63) else \<bar>i\<bar>)"

text \<open>
  The loop over the held keys.  Its state is the action dictionary, the flag
  \<^verbatim>\<open>is_null_action\<close> and the lines printed so far.
\<close>

fun keys_loop ::
  "const \<Rightarrow> string list \<Rightarrow> (string \<times> env_value) list \<times> bool \<times> string list
     \<Rightarrow> (string \<times> env_value) list \<times> bool \<times> string list" where
  "keys_loop C [] st = st"
| "keys_loop C (key # keys) (env_action, is_null_action, printed) =
     (case map_of (KEYBOARD_BUTTON_MAPPING C) key of
        Some button \<Rightarrow> keys_loop C keys (dict_set button (PyInt 1) env_action, False, printed)
      | None \<Rightarrow>
          if key \<in> set (IGNORED_KEYS C)
          then keys_loop C keys (env_action, is_null_action, printed)
          else keys_loop C keys
                 (env_action, is_null_action, printed @ [key @ '' not in the mapping'']))"

definition camera_step :: "const \<Rightarrow> real \<Rightarrow> int \<times> bool \<Rightarrow> py_error + (int \<times> bool)" where
  \<comment> \<open>One of the two \<^verbatim>\<open>if mouse.d: ... else: ...\<close> statements: the new array element
      and the new flag, or the exception of the store.\<close>
  "camera_step C d st =
     (if d \<noteq> 0
      then (case float_to_int64 (d * CAMERA_SCALER C) of
              Inl e \<Rightarrow> Inl e
            | Inr t \<Rightarrow> Inr (t, False))
      else Inr (0, snd st))"

definition camera_reset :: "int \<Rightarrow> int" where
  \<comment> \<open>\<^verbatim>\<open>if abs(camera_action[i]) > 180: camera_action[i] = 0\<close>\<close>
  "camera_reset c = (if abs_int64 c > 180 then 0 else c)"

definition mouse_buttons_step ::
  "int list \<Rightarrow> (string \<times> env_value) list \<times> bool \<Rightarrow> (string \<times> env_value) list \<times> bool" where
  "mouse_buttons_step bs st =
     (if bs \<noteq> []
      then (let st = (if 0 \<in> set bs then (dict_set ''attack'' (PyInt 1) (fst st), False) else st);
                st = (if 2 \<in> set bs then (dict_set ''use'' (PyInt 1) (fst st), False) else st)
            in st)
      else st)"

definition annotation_action_to_env_action ::
  "const \<Rightarrow> LowLevelAction
     \<Rightarrow> py_error + ((string \<times> env_value) list \<times> bool) \<times> string list" where
  \<comment> \<open>Returns the pair \<^verbatim>\<open>(env_action, is_null_action)\<close> of the source, and the lines
      printed.  \<^verbatim>\<open>camera_action\<close> is an alias of \<^verbatim>\<open>env_action["camera"]\<close>, so the stores
      into it are stores into the dictionary's array.\<close>
  "annotation_action_to_env_action C json_action =
     (let env_action = dict_set ''camera'' (NdArr \<lparr>shape = [2], data = [0, 0]\<rparr>) (NOOP_ACTION C);
          is_null_action = True;
          (env_action, is_null_action, printed) =
             keys_loop C (keyboard_keys json_action) (env_action, is_null_action, [])
      in case map_of env_action ''camera'' of
           None \<Rightarrow> Inl (KeyError ''camera'')
         | Some (PyInt _) \<Rightarrow> Inl (TypeError ''int object does not support item assignment'')
         | Some (NdArr _) \<Rightarrow>
            (case camera_step C (mouse_dy json_action) (0, is_null_action) of
               Inl e \<Rightarrow> Inl e
             | Inr (c0, is_null_action) \<Rightarrow>
                (case camera_step C (mouse_dx json_action) (0, is_null_action) of
                   Inl e \<Rightarrow> Inl e
                 | Inr (c1, is_null_action) \<Rightarrow>
                    (let c0 = camera_reset c0;
                         c1 = camera_reset c1;
                         env_action =
                           dict_set ''camera''
                             (NdArr \<lparr>shape = [2], data = [of_int c0, of_int c1]\<rparr>) env_action;
                         (env_action, is_null_action) =
                           mouse_buttons_step (mouse_buttons json_action) (env_action, is_null_action)
                     in Inr ((env_action, is_null_action), printed)))))"

section \<open>batch_recursive_objects\<close>

text \<open>
  The values the batcher is given: dictionaries with string keys, lists, tuples,
  named tuples (the class name and the fields in order), \<^verbatim>\<open>None\<close>, numpy arrays, torch
  tensors, and two kinds of value that are none of these, a string and an integer.
\<close>

datatype obj =
    Dict "(string \<times> obj) list"
  | ListV "obj list"
  | TupleV "obj list"
  | NamedTuple string "(string \<times> obj) list"
  | NoneV
  | NdArray ndarray
  | Tensor ndarray
  | Str string
  | IntV int

definition type_name :: "obj \<Rightarrow> string" where
  "type_name x =
     (case x of
        Dict _ \<Rightarrow> ''dict'' | ListV _ \<Rightarrow> ''list'' | TupleV _ \<Rightarrow> ''tuple''
      | NamedTuple c _ \<Rightarrow> c | NoneV \<Rightarrow> ''NoneType'' | NdArray _ \<Rightarrow> ''numpy.ndarray''
      | Tensor _ \<Rightarrow> ''torch.Tensor'' | Str _ \<Rightarrow> ''str'' | IntV _ \<Rightarrow> ''int'')"

text \<open>
  A list comprehension evaluates its element expression from left to right and stops at
  the first exception.
\<close>

fun collect :: "('a \<Rightarrow> py_error + 'b) \<Rightarrow> 'a list \<Rightarrow> py_error + 'b list" where
  "collect f [] = Inr []"
| "collect f (x # xs) =
     (case f x of
        Inl e \<Rightarrow> Inl e
      | Inr y \<Rightarrow> (case collect f xs of Inl e \<Rightarrow> Inl e | Inr ys \<Rightarrow> Inr (y # ys)))"

lemma collect_cong [fundef_cong]:
  "xs = ys \<Longrightarrow> (\<And>x. x \<in> set ys \<Longrightarrow> f x = g x) \<Longrightarrow> collect f xs = collect g ys"
  by (induction ys arbitrary: xs) (auto split: sum.splits)

definition sub_array :: "nat \<Rightarrow> ndarray \<Rightarrow> py_error + ndarray" where
  \<comment> \<open>\<^verbatim>\<open>a[i]\<close> for an array or a tensor and \<open>i \<ge> 0\<close>.\<close>
  "sub_array i a =
     (case shape a of
        [] \<Rightarrow> Inl (IndexError ''too many indices for array'')
      | n # rest \<Rightarrow>
          if i < n
          then Inr \<lparr>shape = rest,
                    data = take (prod_list rest) (drop (i * prod_list rest) (data a))\<rparr>
          else Inl (IndexError ''index out of bounds''))"

definition getitem_key :: "obj \<Rightarrow> string \<Rightarrow> py_error + obj" where
  \<comment> \<open>\<^verbatim>\<open>d[k]\<close> for a string \<open>k\<close>.\<close>
  "getitem_key d k =
     (case d of
        Dict items \<Rightarrow> (case map_of items k of None \<Rightarrow> Inl (KeyError k) | Some v \<Rightarrow> Inr v)
      | ListV _ \<Rightarrow> Inl (TypeError ''list indices must be integers or slices, not str'')
      | TupleV _ \<Rightarrow> Inl (TypeError ''tuple indices must be integers or slices, not str'')
      | NamedTuple _ _ \<Rightarrow> Inl (TypeError ''tuple indices must be integers or slices, not str'')
      | NoneV \<Rightarrow> Inl (TypeError ''NoneType object is not subscriptable'')
      | NdArray _ \<Rightarrow> Inl (IndexError ''only integers and slices are valid indices'')
      | Tensor _ \<Rightarrow> Inl (IndexError ''only integers and slices are valid indices'')
      | Str _ \<Rightarrow> Inl (TypeError ''string indices must be integers, not str'')
      | IntV _ \<Rightarrow> Inl (TypeError ''int object is not subscriptable''))"

definition getitem_index :: "obj \<Rightarrow> nat \<Rightarrow> py_error + obj" where
  \<comment> \<open>\<^verbatim>\<open>l[i]\<close> for an integer \<open>i \<ge> 0\<close>.  The dictionaries have string keys, so an
      integer is not a key of one.\<close>
  "getitem_index l i =
     (case l of
        Dict _ \<Rightarrow> Inl (KeyError ''an integer'')
      | ListV xs \<Rightarrow> if i < length xs then Inr (xs ! i) else Inl (IndexError ''list index out of range'')
      | TupleV xs \<Rightarrow> if i < length xs then Inr (xs ! i) else Inl (IndexError ''tuple index out of range'')
      | NamedTuple _ fs \<Rightarrow>
          if i < length fs then Inr (snd (fs ! i)) else Inl (IndexError ''tuple index out of range'')
      | NoneV \<Rightarrow> Inl (TypeError ''NoneType object is not subscriptable'')
      | NdArray a \<Rightarrow> (case sub_array i a of Inl e \<Rightarrow> Inl e | Inr b \<Rightarrow> Inr (NdArray b))
      | Tensor a \<Rightarrow> (case sub_array i a of Inl e \<Rightarrow> Inl e | Inr b \<Rightarrow> Inr (Tensor b))
      | Str s \<Rightarrow> if i < length s then Inr (Str [s ! i]) else Inl (IndexError ''string index out of range'')
      | IntV _ \<Rightarrow> Inl (TypeError ''int object is not subscriptable''))"

definition getattr_field :: "obj \<Rightarrow> string \<Rightarrow> py_error + obj" where
  \<comment> \<open>\<^verbatim>\<open>getattr(l, field)\<close>.  A named tuple with the field gives the field's value.  For
      any other object the result depends on whether its class happens to have an
      attribute of that name, which is not modelled.\<close>
  "getattr_field l field =
     (case l of
        NamedTuple _ fs \<Rightarrow>
          (case map_of fs field of
             Some v \<Rightarrow> Inr v
           | None \<Rightarrow> Inl (NotModelled ''getattr of a name that is not a field''))
      | _ \<Rightarrow> Inl (NotModelled ''getattr on an object that is not a named tuple''))"

definition shape_attr :: "obj \<Rightarrow> py_error + nat list" where
  \<comment> \<open>\<^verbatim>\<open>e.shape\<close>: arrays and tensors have it; dictionaries, lists, tuples, \<^verbatim>\<open>None\<close>,
      strings and integers do not; a named tuple has it when it has a field of that
      name, whose value is then compared with a shape, which is not modelled.\<close>
  "shape_attr e =
     (case e of
        NdArray a \<Rightarrow> Inr (shape a)
      | Tensor a \<Rightarrow> Inr (shape a)
      | NamedTuple _ fs \<Rightarrow>
          if ''shape'' \<in> set (map fst fs)
          then Inl (NotModelled ''a named tuple with a field called shape'')
          else Inl (AttributeError ''shape'')
      | _ \<Rightarrow> Inl (AttributeError ''shape''))"

fun the_ndarray :: "obj \<Rightarrow> ndarray option" where
  "the_ndarray (NdArray a) = Some a"
| "the_ndarray _ = None"

fun the_tensor :: "obj \<Rightarrow> ndarray option" where
  "the_tensor (Tensor a) = Some a"
| "the_tensor _ = None"

definition np_concatenate :: "obj list \<Rightarrow> py_error + obj" where
  \<comment> \<open>\<^verbatim>\<open>np.concatenate(ls, axis=0)\<close>.  Arrays of one or more dimensions, all of the same
      number of dimensions and equal in every dimension but the first, are joined
      along the first; numpy raises \<^verbatim>\<open>ValueError\<close> otherwise.  An operand that is not
      an array would first be coerced to one, which is not modelled.\<close>
  "np_concatenate ls =
     (if \<exists>e \<in> set ls. the_ndarray e = None
      then Inl (NotModelled ''np.concatenate of an operand that is not an array'')
      else
        (case List.map_filter the_ndarray ls of
           [] \<Rightarrow> Inl (ValueError ''need at least one array to concatenate'')
         | a # as \<Rightarrow>
             if shape a = []
             then Inl (ValueError ''zero-dimensional arrays cannot be concatenated'')
             else if \<exists>b \<in> set as. length (shape b) \<noteq> length (shape a)
             then Inl (ValueError ''all the input arrays must have same number of dimensions'')
             else if \<exists>b \<in> set as. tl (shape b) \<noteq> tl (shape a)
             then Inl (ValueError ''all the input array dimensions except for the concatenation axis must match exactly'')
             else Inr (NdArray \<lparr>shape = sum_list (map (\<lambda>b. hd (shape b)) (a # as)) # tl (shape a),
                                data = concat (map data (a # as))\<rparr>)))"

definition th_cat :: "obj list \<Rightarrow> py_error + obj" where
  \<comment> \<open>\<^verbatim>\<open>th.cat(ls, dim=0)\<close>.  Every operand must be a tensor (\<^verbatim>\<open>TypeError\<close> otherwise).
      Tensors of shape \<open>[0]\<close> are skipped; the others must have one or more dimensions
      and be equal in every dimension but the first (\<^verbatim>\<open>RuntimeError\<close> otherwise).\<close>
  "th_cat ls =
     (if \<exists>e \<in> set ls. the_tensor e = None
      then Inl (TypeError ''expected Tensor as element of argument tensors'')
      else
        (case filter (\<lambda>t. shape t \<noteq> [0]) (List.map_filter the_tensor ls) of
           [] \<Rightarrow>
             (if ls = [] then Inl (RuntimeError ''torch.cat(): expected a non-empty list of Tensors'')
              else Inr (Tensor \<lparr>shape = [0], data = []\<rparr>))
         | a # as \<Rightarrow>
             if \<exists>b \<in> set (a # as). shape b = []
             then Inl (RuntimeError ''zero-dimensional tensor cannot be concatenated'')
             else if \<exists>b \<in> set as. tl (shape b) \<noteq> tl (shape a)
             then Inl (RuntimeError ''Sizes of tensors must match except in dimension 0'')
             else Inr (Tensor \<lparr>shape = sum_list (map (\<lambda>b. hd (shape b)) (a # as)) # tl (shape a),
                               data = concat (map data (a # as))\<rparr>)))"

definition check_shapes :: "obj \<Rightarrow> obj list \<Rightarrow> py_error + unit" where
  \<comment> \<open>\<^verbatim>\<open>assert all([e.shape == first.shape for e in ls]), "All objects must have the
      same shape"\<close>: each element of the comprehension reads \<^verbatim>\<open>e.shape\<close>, then
      \<^verbatim>\<open>first.shape\<close>.\<close>
  "check_shapes first ls =
     (case collect (\<lambda>e. case shape_attr e of
                           Inl err \<Rightarrow> Inl err
                         | Inr s \<Rightarrow> (case shape_attr first of
                                       Inl err \<Rightarrow> Inl err
                                     | Inr s0 \<Rightarrow> Inr (s = s0))) ls of
        Inl err \<Rightarrow> Inl err
      | Inr bs \<Rightarrow>
          if list_all (\<lambda>b. b) bs then Inr ()
          else Inl (AssertionError ''All objects must have the same shape''))"

definition batch_leaf :: "const \<Rightarrow> obj \<Rightarrow> obj list \<Rightarrow> bool \<Rightarrow> py_error + obj" where
  \<comment> \<open>The final \<^verbatim>\<open>else\<close> branch (lines 347 to 363), for a first element that is no
      dictionary, list, tuple or \<^verbatim>\<open>None\<close>.  The \<^verbatim>\<open>print(9)\<close> before the \<^verbatim>\<open>raise\<close> writes to
      the standard output, which is not part of the result.\<close>
  "batch_leaf C first ls check_shape =
     (case (if check_shape then check_shapes first ls else Inr ()) of
        Inl err \<Rightarrow> Inl err
      | Inr _ \<Rightarrow>
          if the_ndarray first \<noteq> None then np_concatenate ls
          else if \<not> th_bound C then Inl (NameError ''th'')
          else if the_tensor first \<noteq> None then th_cat ls
          else Inl (ValueError (''Unsupported type: '' @ type_name first)))"

lemma obj_size_dict_value:
  "(k, v) \<in> set items \<Longrightarrow> size v < Suc (size_list (size_prod (\<lambda>_. 0) size) items)"
  by (induction items) auto

lemma obj_size_list_elem:
  "v \<in> set xs \<Longrightarrow> size v < Suc (size_list size xs)"
  by (induction xs) auto

lemma collect_hd:
  "collect f (x # xs) = Inr ys \<Longrightarrow> \<exists>y ys'. ys = y # ys' \<and> f x = Inr y"
  by (auto split: sum.splits)

function batch_recursive_objects :: "const \<Rightarrow> obj list \<Rightarrow> bool \<Rightarrow> py_error + obj" where
  "batch_recursive_objects C [] check_shape = Inl (IndexError ''list index out of range'')"
| "batch_recursive_objects C (Dict items # rest) check_shape =
     (case collect (\<lambda>k. case collect (\<lambda>d. getitem_key d k) (Dict items # rest) of
                           Inl e \<Rightarrow> Inl e
                         | Inr col \<Rightarrow> batch_recursive_objects C col False)
                   (map fst items) of
        Inl e \<Rightarrow> Inl e
      | Inr vs \<Rightarrow> Inr (Dict (zip (map fst items) vs)))"
| "batch_recursive_objects C (ListV xs # rest) check_shape =
     (case collect (\<lambda>i. case collect (\<lambda>l. getitem_index l i) (ListV xs # rest) of
                           Inl e \<Rightarrow> Inl e
                         | Inr col \<Rightarrow> batch_recursive_objects C col False)
                   [0..<length xs] of
        Inl e \<Rightarrow> Inl e
      | Inr vs \<Rightarrow> Inr (ListV vs))"
| "batch_recursive_objects C (NamedTuple c fs # rest) check_shape =
     (case collect (\<lambda>field. case collect (\<lambda>l. getattr_field l field) (NamedTuple c fs # rest) of
                               Inl e \<Rightarrow> Inl e
                             | Inr col \<Rightarrow> batch_recursive_objects C col False)
                   (map fst fs) of
        Inl e \<Rightarrow> Inl e
      | Inr vs \<Rightarrow> Inr (NamedTuple c (zip (map fst fs) vs)))"
| "batch_recursive_objects C (TupleV xs # rest) check_shape =
     (case collect (\<lambda>i. case collect (\<lambda>l. getitem_index l i) (TupleV xs # rest) of
                           Inl e \<Rightarrow> Inl e
                         | Inr col \<Rightarrow> batch_recursive_objects C col False)
                   [0..<length xs] of
        Inl e \<Rightarrow> Inl e
      | Inr vs \<Rightarrow> Inr (TupleV vs))"
| "batch_recursive_objects C (NoneV # rest) check_shape = Inr NoneV"
| "batch_recursive_objects C (NdArray a # rest) check_shape =
     batch_leaf C (NdArray a) (NdArray a # rest) check_shape"
| "batch_recursive_objects C (Tensor a # rest) check_shape =
     batch_leaf C (Tensor a) (Tensor a # rest) check_shape"
| "batch_recursive_objects C (Str s # rest) check_shape =
     batch_leaf C (Str s) (Str s # rest) check_shape"
| "batch_recursive_objects C (IntV i # rest) check_shape =
     batch_leaf C (IntV i) (IntV i # rest) check_shape"
  by pat_completeness auto
termination
proof (relation "measure (\<lambda>(C, ls, check_shape). case ls of [] \<Rightarrow> 0 | first # _ \<Rightarrow> size first)")
  show "wf (measure (\<lambda>(C, ls, check_shape). case ls of [] \<Rightarrow> 0 | first # _ \<Rightarrow> size first))"
    by simp
next
  fix C :: const and items rest and check_shape :: bool and k col
  assume k: "k \<in> set (map fst items)"
    and col: "collect (\<lambda>d. getitem_key d k) (Dict items # rest) = Inr col"
  from collect_hd [OF col] obtain y ys where ys: "col = y # ys" "getitem_key (Dict items) k = Inr y"
    by blast
  then have "map_of items k = Some y"
    by (auto simp: getitem_key_def split: option.splits)
  then have "(k, y) \<in> set items"
    by (rule map_of_SomeD)
  then have "size y < Suc (size_list (size_prod (\<lambda>_. 0) size) items)"
    by (rule obj_size_dict_value)
  with ys show "((C, col, False), C, Dict items # rest, check_shape)
        \<in> measure (\<lambda>(C, ls, check_shape). case ls of [] \<Rightarrow> 0 | first # _ \<Rightarrow> size first)"
    by simp
next
  fix C :: const and xs rest and check_shape :: bool and i col
  assume i: "i \<in> set [0..<length xs]"
    and col: "collect (\<lambda>l. getitem_index l i) (ListV xs # rest) = Inr col"
  from collect_hd [OF col] obtain y ys where ys: "col = y # ys" "getitem_index (ListV xs) i = Inr y"
    by blast
  with i have "y \<in> set xs"
    by (auto simp: getitem_index_def split: if_splits)
  then have "size y < Suc (size_list size xs)"
    by (rule obj_size_list_elem)
  with ys show "((C, col, False), C, ListV xs # rest, check_shape)
        \<in> measure (\<lambda>(C, ls, check_shape). case ls of [] \<Rightarrow> 0 | first # _ \<Rightarrow> size first)"
    by simp
next
  fix C :: const and c fs rest and check_shape :: bool and field col
  assume f: "field \<in> set (map fst fs)"
    and col: "collect (\<lambda>l. getattr_field l field) (NamedTuple c fs # rest) = Inr col"
  from collect_hd [OF col] obtain y ys
    where ys: "col = y # ys" "getattr_field (NamedTuple c fs) field = Inr y"
    by blast
  then have "map_of fs field = Some y"
    by (auto simp: getattr_field_def split: option.splits)
  then have "(field, y) \<in> set fs"
    by (rule map_of_SomeD)
  then have "size y < Suc (size_list (size_prod (\<lambda>_. 0) size) fs)"
    by (rule obj_size_dict_value)
  with ys show "((C, col, False), C, NamedTuple c fs # rest, check_shape)
        \<in> measure (\<lambda>(C, ls, check_shape). case ls of [] \<Rightarrow> 0 | first # _ \<Rightarrow> size first)"
    by simp
next
  fix C :: const and xs rest and check_shape :: bool and i col
  assume i: "i \<in> set [0..<length xs]"
    and col: "collect (\<lambda>l. getitem_index l i) (TupleV xs # rest) = Inr col"
  from collect_hd [OF col] obtain y ys where ys: "col = y # ys" "getitem_index (TupleV xs) i = Inr y"
    by blast
  with i have "y \<in> set xs"
    by (auto simp: getitem_index_def split: if_splits)
  then have "size y < Suc (size_list size xs)"
    by (rule obj_size_list_elem)
  with ys show "((C, col, False), C, TupleV xs # rest, check_shape)
        \<in> measure (\<lambda>(C, ls, check_shape). case ls of [] \<Rightarrow> 0 | first # _ \<Rightarrow> size first)"
    by simp
qed

section \<open>Vocabulary for the claims about the batcher\<close>

text \<open>
  The definitions of this section are not translations of the source: they are what the
  claims about the batcher are stated with.  \<open>leaves\<close> are the leaves of a record in
  the order in which the batcher reaches them, \<open>at_path\<close> is the value at a position
  (a sequence of dictionary keys, sequence indices and field names), and a record is
  well formed when the keys of each of its dictionaries and the fields of each of its
  named tuples are distinct and its arrays hold as many elements as their shapes say.
\<close>

fun leaves :: "obj \<Rightarrow> obj list" where
  "leaves (Dict items) = concat (map (\<lambda>(k, v). leaves v) items)"
| "leaves (ListV xs) = concat (map leaves xs)"
| "leaves (TupleV xs) = concat (map leaves xs)"
| "leaves (NamedTuple c fs) = concat (map (\<lambda>(f, v). leaves v) fs)"
| "leaves x = [x]"

fun wf_obj :: "obj \<Rightarrow> bool" where
  "wf_obj (Dict items) = (distinct (map fst items) \<and> (\<forall>(k, v) \<in> set items. wf_obj v))"
| "wf_obj (ListV xs) = (\<forall>x \<in> set xs. wf_obj x)"
| "wf_obj (TupleV xs) = (\<forall>x \<in> set xs. wf_obj x)"
| "wf_obj (NamedTuple c fs) = (distinct (map fst fs) \<and> (\<forall>(f, v) \<in> set fs. wf_obj v))"
| "wf_obj (NdArray a) = wf_ndarray a"
| "wf_obj (Tensor a) = wf_ndarray a"
| "wf_obj x = True"

text \<open>
  \<open>same_structure x y\<close>: the records \<open>x\<close> and \<open>y\<close> are structurally identical.  They are
  built alike at every level (dictionaries with the same keys, in any order; lists and
  tuples of the same length; named tuples of the same class and fields), their
  corresponding leaves are of the same kind, and corresponding arrays (or tensors) have
  one dimension or more and agree in every dimension but the first, the batch axis.
\<close>

fun same_structure :: "obj \<Rightarrow> obj \<Rightarrow> bool" where
  "same_structure (Dict a) y =
     (case y of
        Dict b \<Rightarrow> set (map fst a) = set (map fst b)
          \<and> (\<forall>(k, v) \<in> set a. case map_of b k of Some w \<Rightarrow> same_structure v w | None \<Rightarrow> False)
      | _ \<Rightarrow> False)"
| "same_structure (ListV xs) y =
     (case y of ListV ys \<Rightarrow> list_all2 same_structure xs ys | _ \<Rightarrow> False)"
| "same_structure (TupleV xs) y =
     (case y of TupleV ys \<Rightarrow> list_all2 same_structure xs ys | _ \<Rightarrow> False)"
| "same_structure (NamedTuple c fs) y =
     (case y of
        NamedTuple c' fs' \<Rightarrow> c = c'
          \<and> list_all2 (\<lambda>(f, v) (f', w). f = f' \<and> same_structure v w) fs fs'
      | _ \<Rightarrow> False)"
| "same_structure NoneV y = (y = NoneV)"
| "same_structure (NdArray a) y =
     (case y of NdArray b \<Rightarrow> shape a \<noteq> [] \<and> shape b \<noteq> [] \<and> tl (shape a) = tl (shape b) | _ \<Rightarrow> False)"
| "same_structure (Tensor a) y =
     (case y of Tensor b \<Rightarrow> shape a \<noteq> [] \<and> shape b \<noteq> [] \<and> tl (shape a) = tl (shape b) | _ \<Rightarrow> False)"
| "same_structure (Str s) y = (case y of Str _ \<Rightarrow> True | _ \<Rightarrow> False)"
| "same_structure (IntV i) y = (case y of IntV _ \<Rightarrow> True | _ \<Rightarrow> False)"

datatype step = Key string | Index nat | Field string

fun at_path :: "obj \<Rightarrow> step list \<Rightarrow> obj option" where
  "at_path x [] = Some x"
| "at_path (Dict items) (Key k # p) =
     (case map_of items k of None \<Rightarrow> None | Some v \<Rightarrow> at_path v p)"
| "at_path (ListV xs) (Index i # p) = (if i < length xs then at_path (xs ! i) p else None)"
| "at_path (TupleV xs) (Index i # p) = (if i < length xs then at_path (xs ! i) p else None)"
| "at_path (NamedTuple c fs) (Field f # p) =
     (case map_of fs f of None \<Rightarrow> None | Some v \<Rightarrow> at_path v p)"
| "at_path x (s # p) = None"


definition unsupported_leaf :: "obj \<Rightarrow> bool" where
  \<comment> \<open>The leaves that are neither \<^verbatim>\<open>None\<close> nor an array nor a tensor.\<close>
  "unsupported_leaf x = (case x of Str _ \<Rightarrow> True | IntV _ \<Rightarrow> True | _ \<Rightarrow> False)"

definition numpy_leaf :: "obj \<Rightarrow> bool" where
  \<comment> \<open>The leaves for which the batcher does not evaluate the name \<^verbatim>\<open>th\<close>.\<close>
  "numpy_leaf x = (case x of NdArray _ \<Rightarrow> True | NoneV \<Rightarrow> True | _ \<Rightarrow> False)"

definition array_at :: "obj \<Rightarrow> step list \<Rightarrow> ndarray" where
  "array_at e p =
     (case at_path e p of
        Some (NdArray b) \<Rightarrow> b
      | Some (Tensor b) \<Rightarrow> b
      | _ \<Rightarrow> \<lparr>shape = [], data = []\<rparr>)"

definition concat_arrays :: "ndarray list \<Rightarrow> ndarray" where
  \<comment> \<open>Concatenation along the first axis: the batch sizes add up, the other dimensions
      are those of the first array, and the elements follow one another.\<close>
  "concat_arrays arrs =
     \<lparr>shape = sum_list (map (\<lambda>b. hd (shape b)) arrs) # tl (shape (hd arrs)),
      data = concat (map data arrs)\<rparr>"

text \<open>
  The batch law as one statement, for the induction over the batcher's recursion:
  records that satisfy \<open>batch_pre\<close> either hit an unsupported leaf, and then the batcher
  raises the \<^verbatim>\<open>ValueError\<close> that names the type of the first one, or batch to a record
  of the same structure whose array at every position is the concatenation of the
  records' arrays at that position.
\<close>

definition batch_pre :: "const \<Rightarrow> obj list \<Rightarrow> bool" where
  "batch_pre C ls \<longleftrightarrow>
     ls \<noteq> [] \<and> (\<forall>e \<in> set ls. wf_obj e \<and> same_structure (hd ls) e)
     \<and> (th_bound C \<or> list_all numpy_leaf (leaves (hd ls)))"

definition leaves_batched :: "obj \<Rightarrow> (step list \<Rightarrow> ndarray list) \<Rightarrow> obj \<Rightarrow> bool" where
  "leaves_batched first cols r \<longleftrightarrow>
     same_structure first r
     \<and> (\<forall>p a. (at_path first p = Some (NdArray a) \<longrightarrow>
                  at_path r p = Some (NdArray (concat_arrays (cols p))))
              \<and> (at_path first p = Some (Tensor a) \<longrightarrow>
                  at_path r p = Some (Tensor (concat_arrays (cols p)))))"

definition batch_post :: "const \<Rightarrow> obj list \<Rightarrow> bool" where
  "batch_post C ls \<longleftrightarrow>
     (case find unsupported_leaf (leaves (hd ls)) of
        Some x \<Rightarrow>
          batch_recursive_objects C ls False
            = Inl (ValueError (''Unsupported type: '' @ type_name x))
      | None \<Rightarrow>
          \<exists>r. batch_recursive_objects C ls False = Inr r
             \<and> leaves_batched (hd ls) (\<lambda>p. map (\<lambda>e. array_at e p) ls) r)"

section \<open>Concrete configurations\<close>

definition linear_quantizer :: CameraQuantizer where
  \<comment> \<open>The quantizer that \<^verbatim>\<open>ProtoToTorchActionMapper.__init__\<close> builds.\<close>
  "linear_quantizer =
     \<lparr>camera_maxval = 10, camera_binsize = 2, quantization_scheme = ''linear'', mu = 5\<rparr>"

definition mu_law_quantizer :: CameraQuantizer where
  "mu_law_quantizer =
     \<lparr>camera_maxval = 10, camera_binsize = 2, quantization_scheme = ''mu_law'', mu = 10\<rparr>"

definition example_const :: const where
  \<comment> \<open>The tables of the concrete example: the vocabulary \<open>forward\<close>, \<open>attack\<close>, \<open>use\<close>, one
      mapped key, and the camera sensitivity \<open>0.15\<close>.\<close>
  "example_const =
     \<lparr>Buttons_ALL = [''forward'', ''attack'', ''use''],
      NOOP_ACTION = [(''forward'', PyInt 0), (''attack'', PyInt 0), (''use'', PyInt 0),
                     (''camera'', NdArr \<lparr>shape = [2], data = [0, 0]\<rparr>)],
      KEYBOARD_BUTTON_MAPPING = [(''key.keyboard.w'', ''forward'')],
      IGNORED_KEYS = [],
      CAMERA_SCALER = 15 / 100,
      th_bound = True\<rparr>"

definition example_event :: LowLevelAction where
  "example_event =
     \<lparr>keyboard_keys = [''key.keyboard.w''], mouse_dx = 90, mouse_dy = 0, mouse_buttons = [0]\<rparr>"

definition idle_event :: LowLevelAction where
  "idle_event = \<lparr>keyboard_keys = [], mouse_dx = 0, mouse_dy = 0, mouse_buttons = []\<rparr>"

definition middle_button_event :: LowLevelAction where
  "middle_button_event = \<lparr>keyboard_keys = [], mouse_dx = 0, mouse_dy = 0, mouse_buttons = [1]\<rparr>"

definition example_transformer :: ActionTransformer where
  "example_transformer = \<lparr>quantizer = linear_quantizer\<rparr>"

definition example_env_action :: "(string \<times> env_value) list" where
  \<comment> \<open>One unbatched record, as the decoder returns it.\<close>
  "example_env_action =
     [(''forward'', PyInt 1), (''attack'', PyInt 1), (''use'', PyInt 0),
      (''camera'', NdArr \<lparr>shape = [2], data = [0, 13]\<rparr>)]"

definition example_env_action_batch :: "(string \<times> env_value) list" where
  \<comment> \<open>The same record as a batch of size one.\<close>
  "example_env_action_batch =
     [(''forward'', NdArr \<lparr>shape = [1], data = [1]\<rparr>),
      (''attack'', NdArr \<lparr>shape = [1], data = [1]\<rparr>),
      (''use'', NdArr \<lparr>shape = [1], data = [0]\<rparr>),
      (''camera'', NdArr \<lparr>shape = [1, 2], data = [0, 13]\<rparr>)]"

definition arr_1x2 :: ndarray where
  "arr_1x2 = \<lparr>shape = [1, 2], data = [1, 2]\<rparr>"

definition arr_2x2 :: ndarray where
  "arr_2x2 = \<lparr>shape = [2, 2], data = [3, 4, 5, 6]\<rparr>"

definition arr_1x3 :: ndarray where
  "arr_1x3 = \<lparr>shape = [1, 3], data = [7, 8, 9]\<rparr>"

definition const_without_th :: const where
  \<comment> \<open>The tables of the example, in a module where the name \<^verbatim>\<open>th\<close> is not bound.\<close>
  "const_without_th = example_const\<lparr>th_bound := False\<rparr>"

definition record_1 :: obj where
  "record_1 =
     Dict [(''a'', NdArray arr_1x2),
           (''t'', TupleV [NdArray arr_1x2, NdArray arr_2x2]),
           (''n'', NoneV)]"

definition record_2 :: obj where
  "record_2 =
     Dict [(''n'', NoneV),
           (''t'', TupleV [NdArray arr_2x2, NdArray arr_2x2]),
           (''a'', NdArray arr_2x2)]"






section \<open>Properties of the quantizer\<close>

lemma np_round_near:
  "\<bar>of_int (np_round x) - x\<bar> \<le> 1/2"
proof -
  have "of_int \<lfloor>x\<rfloor> \<le> x" "x < of_int \<lfloor>x\<rfloor> + 1"
    by linarith+
  then show ?thesis
    unfolding np_round_def Let_def by (simp add: abs_le_iff)
qed

lemma np_round_unique:
  assumes "of_int n - 1/2 < x" and "x < of_int n + 1/2"
  shows "np_round x = n"
proof -
  have "\<bar>of_int (np_round x) - x\<bar> \<le> 1/2"
    by (rule np_round_near)
  with assms have "\<bar>(of_int (np_round x) :: real) - of_int n\<bar> < 1"
    by linarith
  then have "\<bar>np_round x - n\<bar> < 1"
    by (metis of_int_1 of_int_abs of_int_diff of_int_less_iff)
  then show ?thesis
    by linarith
qed

lemma np_round_of_int [simp]: "np_round (of_int n) = n"
  by (rule np_round_unique) simp_all

lemma linear_round_trip_half:
  assumes "quantization_scheme q = LINEAR" "0 < camera_binsize q"
    and "\<bar>x\<bar> \<le> of_int (camera_maxval q)"
  shows "\<bar>undiscretize_elem q (of_int (discretize_elem q x)) - x\<bar> \<le> of_int (camera_binsize q) / 2"
proof -
  define b :: real where "b = of_int (camera_binsize q)"
  define m :: real where "m = of_int (camera_maxval q)"
  have b: "0 < b" using assms(2) by (simp add: b_def)
  have lin: "quantization_scheme q \<noteq> MU_LAW"
    using assms(1) by (simp add: LINEAR_def MU_LAW_def)
  have clip: "np_clip x (- m) m = x"
    using assms(3) unfolding np_clip_def m_def by (simp add: abs_le_iff min_def max_def)
  have d: "discretize_elem q x = np_round ((x + m) / b)"
    using lin clip unfolding discretize_elem_def Let_def b_def m_def by simp
  have u: "undiscretize_elem q p = p * b - m" for p
    using lin unfolding undiscretize_elem_def Let_def b_def m_def by simp
  have "\<bar>of_int (np_round ((x + m) / b)) - (x + m) / b\<bar> \<le> 1/2"
    by (rule np_round_near)
  then have "\<bar>of_int (np_round ((x + m) / b)) - (x + m) / b\<bar> * b \<le> 1/2 * b"
    using b by (intro mult_right_mono) simp_all
  moreover have "\<bar>of_int (np_round ((x + m) / b)) - (x + m) / b\<bar> * b
      = \<bar>of_int (np_round ((x + m) / b)) * b - (x + m)\<bar>"
  proof -
    have "\<bar>of_int (np_round ((x + m) / b)) - (x + m) / b\<bar> * b
        = \<bar>(of_int (np_round ((x + m) / b)) - (x + m) / b) * b\<bar>"
      using b by (simp add: abs_mult)
    also have "(of_int (np_round ((x + m) / b)) - (x + m) / b) * b
        = of_int (np_round ((x + m) / b)) * b - (x + m)"
      using b by (simp add: left_diff_distrib)
    finally show ?thesis .
  qed
  ultimately have "\<bar>of_int (np_round ((x + m) / b)) * b - (x + m)\<bar> \<le> b / 2"
    by simp
  then show ?thesis
    unfolding d u b_def[symmetric] by (simp add: algebra_simps)
qed

lemma ln_87_11: "9 / 10 < ln (87 / 10 :: real) / ln 11" "ln (87 / 10 :: real) / ln 11 < 1"
proof -
  have pos: "0 < ln (11 :: real)" by simp
  have "(11 :: real) ^ 9 < (87 / 10) ^ 10" by (simp add: power_divide)
  then have "ln ((11 :: real) ^ 9) < ln ((87 / 10) ^ 10)"
    by (subst ln_less_cancel_iff) simp_all
  moreover have "ln ((11 :: real) ^ 9) = 9 * ln 11"
    by (subst ln_realpow) simp
  moreover have "ln ((87 / 10 :: real) ^ 10) = 10 * ln (87 / 10)"
    by (subst ln_realpow) simp
  ultimately have "9 * ln (11 :: real) < 10 * ln (87 / 10)"
    by (simp only:)
  then show "9 / 10 < ln (87 / 10 :: real) / ln 11"
    using pos by (simp add: field_simps)
  have "ln (87 / 10 :: real) < ln 11"
    by (subst ln_less_cancel_iff) simp_all
  then show "ln (87 / 10 :: real) / ln 11 < 1"
    using pos by (simp add: field_simps)
qed

lemma mu_law_discretize_77: "discretize_elem mu_law_quantizer (77 / 10) = 10"
proof -
  have e: "discretize_elem mu_law_quantizer (77 / 10)
      = np_round ((ln (87 / 10) / ln 11 * 10 + 10) / 2)"
    unfolding discretize_elem_def mu_law_quantizer_def Let_def np_clip_def np_sign_def MU_LAW_def
    by simp
  define L :: real where "L = ln (87 / 10) / ln 11"
  have "9 / 10 < L" "L < 1"
    unfolding L_def by (rule ln_87_11)+
  then have "of_int 10 - 1 / 2 < (L * 10 + 10) / 2" "(L * 10 + 10) / 2 < of_int 10 + 1 / 2"
    by simp_all
  then have "np_round ((L * 10 + 10) / 2) = 10"
    by (rule np_round_unique)
  then show ?thesis
    unfolding e L_def .
qed

lemma mu_law_undiscretize_10: "undiscretize_elem mu_law_quantizer 10 = 10"
  unfolding undiscretize_elem_def mu_law_quantizer_def Let_def np_sign_def MU_LAW_def
  by simp

section \<open>Claims about the quantizer\<close>

text \<open>
  Claim C1, as stated, fails.  The claim: for every configuration with positive
  \<open>maxval\<close>, a positive \<open>binsize\<close> dividing the range, positive \<open>mu\<close>, both schemes, and
  every \<open>x\<close> in \<open>[-maxval, maxval]\<close>, the round trip \<open>undiscretize (discretize x)\<close> is
  within \<open>binsize\<close> of \<open>x\<close>.  Under the mu-law scheme with \<open>maxval = 10\<close>, \<open>binsize = 2\<close>
  and \<open>mu = 10\<close> the delta \<open>7.7\<close> is encoded as bin 10, which decodes to 10: the round
  trip is off by \<open>2.3\<close>, more than \<open>binsize\<close>.  (The docstring of the class calls
  \<open>binsize\<close> the average bin size under mu-law.)
\<close>

theorem C1_mu_law_round_trip_counterexample:
  "0 < camera_maxval mu_law_quantizer \<and> 0 < camera_binsize mu_law_quantizer
   \<and> camera_binsize mu_law_quantizer dvd 2 * camera_maxval mu_law_quantizer
   \<and> 0 < mu mu_law_quantizer \<and> quantization_scheme mu_law_quantizer = MU_LAW
   \<and> \<bar>77 / 10 :: real\<bar> \<le> of_int (camera_maxval mu_law_quantizer)
   \<and> \<not> \<bar>undiscretize_elem mu_law_quantizer (of_int (discretize_elem mu_law_quantizer (77 / 10)))
          - 77 / 10\<bar>
        \<le> of_int (camera_binsize mu_law_quantizer)"
  unfolding mu_law_discretize_77
  by (simp add: mu_law_undiscretize_10) (simp add: mu_law_quantizer_def MU_LAW_def)

text \<open>
  Claim C1, amended to the linear scheme: for every configuration with the linear
  scheme, positive \<open>maxval\<close> and positive \<open>binsize\<close>, and every \<open>x\<close> in
  \<open>[-maxval, maxval]\<close>, the round trip \<open>undiscretize (discretize x)\<close> is within \<open>binsize\<close>
  of \<open>x\<close>.
\<close>

theorem C1_linear_round_trip_bound:
  assumes "quantization_scheme q = LINEAR"
    and "0 < camera_maxval q" and "0 < camera_binsize q"
    and "- of_int (camera_maxval q) \<le> x" and "x \<le> of_int (camera_maxval q)"
  shows "\<bar>undiscretize_elem q (of_int (discretize_elem q x)) - x\<bar> \<le> of_int (camera_binsize q)"
proof -
  have "\<bar>x\<bar> \<le> of_int (camera_maxval q)"
    using assms(4,5) by (simp add: abs_le_iff)
  with assms(1,3)
  have "\<bar>undiscretize_elem q (of_int (discretize_elem q x)) - x\<bar> \<le> of_int (camera_binsize q) / 2"
    by (rule linear_round_trip_half)
  moreover have "(0 :: real) < of_int (camera_binsize q)"
    using assms(3) by simp
  ultimately show ?thesis
    by linarith
qed

text \<open>
  Witness for C1: the linear quantizer with \<open>maxval = 10\<close> and \<open>binsize = 2\<close> at the
  delta \<open>3.3\<close>.
\<close>

theorem C1_linear_round_trip_bound_witness:
  "quantization_scheme linear_quantizer = LINEAR
   \<and> 0 < camera_maxval linear_quantizer \<and> 0 < camera_binsize linear_quantizer
   \<and> - of_int (camera_maxval linear_quantizer) \<le> (33 / 10 :: real)
   \<and> (33 / 10 :: real) \<le> of_int (camera_maxval linear_quantizer)
   \<and> \<bar>undiscretize_elem linear_quantizer (of_int (discretize_elem linear_quantizer (33 / 10)))
        - 33 / 10\<bar>
      \<le> of_int (camera_binsize linear_quantizer)"
  using C1_linear_round_trip_bound [of linear_quantizer "33 / 10"]
  by (simp add: linear_quantizer_def LINEAR_def)

text \<open>
  Claim C6, as stated, fails.  The claim: constructing a quantizer fails exactly when
  the configuration is out of its valid domain, in particular for every \<open>mu \<le> 0\<close>.
  The constructor validates the scheme only: a mu-law quantizer with \<open>mu = -1\<close>, a
  \<open>binsize\<close> of zero and a negative \<open>maxval\<close> is constructed.
\<close>

theorem C6_invalid_configuration_counterexample:
  "new_CameraQuantizer (- 10) 0 ''mu_law'' (- 1)
     = Inr \<lparr>camera_maxval = - 10, camera_binsize = 0, quantization_scheme = ''mu_law'', mu = - 1\<rparr>"
  by (simp add: new_CameraQuantizer_def LINEAR_def MU_LAW_def)

text \<open>
  Claim C6, amended: constructing a quantizer fails if and only if the scheme is
  neither \<open>linear\<close> nor \<open>mu_law\<close>, whatever \<open>maxval\<close>, \<open>binsize\<close> and \<open>mu\<close> are; the
  failure is the \<^verbatim>\<open>ValueError\<close> of the validator, and a construction that succeeds
  stores the four arguments.
\<close>

theorem C6_construction_fails_iff_scheme_invalid:
  "(isl (new_CameraQuantizer maxval binsize scheme m)
      \<longleftrightarrow> scheme \<noteq> ''linear'' \<and> scheme \<noteq> ''mu_law'')
   \<and> (\<forall>e. new_CameraQuantizer maxval binsize scheme m = Inl e \<longrightarrow> (\<exists>msg. e = ValueError msg))
   \<and> (\<forall>q. new_CameraQuantizer maxval binsize scheme m = Inr q \<longrightarrow>
          q = \<lparr>camera_maxval = maxval, camera_binsize = binsize,
                quantization_scheme = scheme, mu = m\<rparr>)"
  by (auto simp: new_CameraQuantizer_def LINEAR_def MU_LAW_def)

text \<open>
  Witness for C6: the scheme \<open>cubic\<close> is refused with a \<^verbatim>\<open>ValueError\<close>, and a linear
  quantizer with \<open>mu = 0\<close> is constructed.
\<close>

theorem C6_construction_fails_iff_scheme_invalid_witness:
  "isl (new_CameraQuantizer 10 2 ''cubic'' 5)
   \<and> (\<exists>msg. new_CameraQuantizer 10 2 ''cubic'' 5 = Inl (ValueError msg))
   \<and> \<not> isl (new_CameraQuantizer 10 2 ''linear'' 0)"
proof -
  have a: "isl (new_CameraQuantizer 10 2 ''cubic'' 5)"
    using C6_construction_fails_iff_scheme_invalid [of 10 2 "''cubic''" 5] by simp
  then obtain e where e: "new_CameraQuantizer 10 2 ''cubic'' 5 = Inl e"
    by (cases "new_CameraQuantizer 10 2 ''cubic'' 5") auto
  with C6_construction_fails_iff_scheme_invalid [of 10 2 "''cubic''" 5]
  have b: "\<exists>msg. new_CameraQuantizer 10 2 ''cubic'' 5 = Inl (ValueError msg)"
    by auto
  have c: "\<not> isl (new_CameraQuantizer 10 2 ''linear'' 0)"
    using C6_construction_fails_iff_scheme_invalid [of 10 2 "''linear''" 0] by simp
  from a b c show ?thesis by blast
qed

section \<open>Claims about the batcher\<close>

text \<open>
  Claim C10: applying the batcher to an empty list never returns a value; indexing the
  first element raises \<^verbatim>\<open>IndexError\<close>, for every setting of the shape-check flag.
\<close>

theorem C10_batch_empty_raises:
  "batch_recursive_objects C [] check_shape = Inl (IndexError ''list index out of range'')"
  by simp

section \<open>Claims about the decoder\<close>

lemma map_of_dict_set: "map_of (dict_set k v d) = (map_of d)(k \<mapsto> v)"
  by (induction d) (auto simp: fun_eq_iff)

lemma float_to_int64_27_2: "float_to_int64 (27 / 2) = Inr 13"
proof -
  have "\<lfloor>27 / 2 :: real\<rfloor> = 13" by (rule floor_unique) simp_all
  then show ?thesis by (simp add: float_to_int64_def fits_int64_def truncate_toward_zero_def)
qed

lemma fits_int64_0: "fits_int64 0"
  by (simp add: fits_int64_def truncate_toward_zero_def)

lemma discretize_linear_example:
  "discretize linear_quantizer \<lparr>shape = s, data = [0, 13]\<rparr> = \<lparr>shape = s, data = [5, 10]\<rparr>"
  "discretize linear_quantizer \<lparr>shape = s, data = [0, 27 / 2]\<rparr> = \<lparr>shape = s, data = [5, 10]\<rparr>"
  by (simp_all add: discretize_def discretize_elem_def linear_quantizer_def MU_LAW_def np_clip_def
      np_round_of_int [of 5, simplified] np_round_of_int [of 10, simplified])

text \<open>
  Claim C2 and the code.  The claim: for the event with the forward key held,
  \<open>dx = 90\<close>, \<open>dy = 0\<close>, mouse button 0 held and sensitivity \<open>0.15\<close>, the decoder returns
  \<open>forward = 1\<close>, \<open>attack = 1\<close>, \<open>use = 0\<close>, \<open>camera = (0, 13.5)\<close> and a false flag, and the
  linear quantizer with \<open>maxval = 10\<close>, \<open>binsize = 2\<close> turns that camera into the bins
  \<open>(5, 10)\<close>.  The code stores \<open>90 * 0.15 = 13.5\<close> into an array of integers, so the decoder
  returns the camera \<open>(0, 13)\<close>; the rest is as claimed, and both \<open>(0, 13)\<close> and \<open>(0, 13.5)\<close>
  discretize to \<open>(5, 10)\<close>.
\<close>

theorem C2_decoder_truncates_camera:
  "annotation_action_to_env_action example_const example_event
     = Inr (([(''forward'', PyInt 1), (''attack'', PyInt 1), (''use'', PyInt 0),
              (''camera'', NdArr \<lparr>shape = [2], data = [0, 13]\<rparr>)], False), [])
   \<and> mouse_dx example_event * CAMERA_SCALER example_const = 27 / 2
   \<and> discretize linear_quantizer \<lparr>shape = [2], data = [0, 13]\<rparr> = \<lparr>shape = [2], data = [5, 10]\<rparr>
   \<and> discretize linear_quantizer \<lparr>shape = [2], data = [0, 27 / 2]\<rparr> = \<lparr>shape = [2], data = [5, 10]\<rparr>"
  by (simp add: annotation_action_to_env_action_def example_const_def example_event_def
      camera_step_def camera_reset_def abs_int64_def mouse_buttons_step_def float_to_int64_27_2
      discretize_linear_example)

lemma keys_loop_flag:
  "fst (snd (keys_loop C ks (env, flag, p)))
     = (flag \<and> (\<forall>k \<in> set ks. map_of (KEYBOARD_BUTTON_MAPPING C) k = None))"
  by (induction ks arbitrary: env flag p) (auto split: option.splits)

lemma keys_loop_camera:
  "\<forall>k \<in> set ks. map_of (KEYBOARD_BUTTON_MAPPING C) k \<noteq> Some ''camera'' \<Longrightarrow>
   map_of (fst (keys_loop C ks (env, flag, p))) ''camera'' = map_of env ''camera''"
  by (induction ks arbitrary: env flag p) (auto split: option.splits simp: map_of_dict_set)

lemma camera_step_flag:
  "camera_step C d (c, flag) = Inr (c', flag') \<Longrightarrow> flag' = (flag \<and> d = 0)"
  by (auto simp: camera_step_def split: if_splits sum.splits)

lemma camera_step_returns:
  "fits_int64 (d * CAMERA_SCALER C) \<Longrightarrow> \<exists>c'. camera_step C d (c, flag) = Inr (c', flag \<and> d = 0)"
  by (simp add: camera_step_def float_to_int64_def)

lemma camera_step_overflow:
  "d \<noteq> 0 \<Longrightarrow> \<not> fits_int64 (d * CAMERA_SCALER C) \<Longrightarrow>
   camera_step C d st = Inl (OverflowError ''Python int too large to convert to C long'')"
  by (simp add: camera_step_def float_to_int64_def)

lemma mouse_buttons_step_flag:
  "snd (mouse_buttons_step bs (env, flag)) = (flag \<and> 0 \<notin> set bs \<and> 2 \<notin> set bs)"
  by (auto simp: mouse_buttons_step_def Let_def)

lemma decoder_overflow:
  assumes "\<forall>k \<in> set (keyboard_keys ev). map_of (KEYBOARD_BUTTON_MAPPING C) k \<noteq> Some ''camera''"
    and "mouse_dy ev \<noteq> 0" and "\<not> fits_int64 (mouse_dy ev * CAMERA_SCALER C)"
  shows "annotation_action_to_env_action C ev
      = Inl (OverflowError ''Python int too large to convert to C long'')"
proof -
  let ?start = "(dict_set ''camera'' (NdArr \<lparr>shape = [2], data = [0, 0]\<rparr>) (NOOP_ACTION C), True, [])"
  obtain env1 f1 p1 where kl: "keys_loop C (keyboard_keys ev) ?start = (env1, f1, p1)"
    by (metis prod_cases3)
  have "map_of env1 ''camera'' = map_of (fst (keys_loop C (keyboard_keys ev) ?start)) ''camera''"
    by (simp add: kl)
  then have cam: "map_of env1 ''camera'' = Some (NdArr \<lparr>shape = [2], data = [0, 0]\<rparr>)"
    by (simp only: keys_loop_camera [OF assms(1)] map_of_dict_set) simp
  show ?thesis
    unfolding annotation_action_to_env_action_def Let_def kl
    by (simp add: cam camera_step_overflow [OF assms(2,3)])
qed

lemma decoder_flag:
  assumes "\<forall>k \<in> set (keyboard_keys ev). map_of (KEYBOARD_BUTTON_MAPPING C) k \<noteq> Some ''camera''"
    and fy: "fits_int64 (mouse_dy ev * CAMERA_SCALER C)"
    and fx: "fits_int64 (mouse_dx ev * CAMERA_SCALER C)"
  shows "\<exists>env printed.
      annotation_action_to_env_action C ev
        = Inr ((env,
                (\<forall>k \<in> set (keyboard_keys ev). map_of (KEYBOARD_BUTTON_MAPPING C) k = None)
                \<and> mouse_dy ev = 0 \<and> mouse_dx ev = 0
                \<and> 0 \<notin> set (mouse_buttons ev) \<and> 2 \<notin> set (mouse_buttons ev)), printed)"
proof -
  let ?start = "(dict_set ''camera'' (NdArr \<lparr>shape = [2], data = [0, 0]\<rparr>) (NOOP_ACTION C), True, [])"
  obtain env1 f1 p1 where kl: "keys_loop C (keyboard_keys ev) ?start = (env1, f1, p1)"
    by (metis prod_cases3)
  have "f1 = fst (snd (keys_loop C (keyboard_keys ev) ?start))"
    by (simp add: kl)
  then have f1: "f1 = (\<forall>k \<in> set (keyboard_keys ev). map_of (KEYBOARD_BUTTON_MAPPING C) k = None)"
    by (simp only: keys_loop_flag simp_thms)
  have "map_of env1 ''camera'' = map_of (fst (keys_loop C (keyboard_keys ev) ?start)) ''camera''"
    by (simp add: kl)
  then have cam: "map_of env1 ''camera'' = Some (NdArr \<lparr>shape = [2], data = [0, 0]\<rparr>)"
    by (simp only: keys_loop_camera [OF assms(1)] map_of_dict_set) simp
  define f2 where "f2 = (f1 \<and> mouse_dy ev = 0)"
  define f3 where "f3 = (f2 \<and> mouse_dx ev = 0)"
  obtain c0 where s0: "camera_step C (mouse_dy ev) (0, f1) = Inr (c0, f2)"
    unfolding f2_def using camera_step_returns [OF fy] by blast
  obtain c1 where s1: "camera_step C (mouse_dx ev) (0, f2) = Inr (c1, f3)"
    unfolding f3_def using camera_step_returns [OF fx] by blast
  let ?env3 = "dict_set ''camera''
      (NdArr \<lparr>shape = [2], data = [of_int (camera_reset c0), of_int (camera_reset c1)]\<rparr>) env1"
  obtain env4 f4 where s2: "mouse_buttons_step (mouse_buttons ev) (?env3, f3) = (env4, f4)"
    by (cases "mouse_buttons_step (mouse_buttons ev) (?env3, f3)")
  note f2 = f2_def and f3 = f3_def
  have "f4 = snd (mouse_buttons_step (mouse_buttons ev) (?env3, f3))"
    by (simp add: s2)
  then have f4: "f4 = (f3 \<and> 0 \<notin> set (mouse_buttons ev) \<and> 2 \<notin> set (mouse_buttons ev))"
    by (simp only: mouse_buttons_step_flag)
  have "annotation_action_to_env_action C ev = Inr ((env4, f4), p1)"
    unfolding annotation_action_to_env_action_def Let_def kl
    by (simp add: cam s0 s1 s2)
  then show ?thesis
    unfolding f4 f3 f2 f1 by (intro exI [of _ env4] exI [of _ p1]) simp
qed

text \<open>
  Claim C3, as stated, fails.  The claim: an event with no key, no mouse movement and
  no mouse button gives a true flag, and any single non-zero signal (a mapped key, a
  non-zero mouse delta, or a held mouse button) gives a false flag.  The event that
  holds mouse button 1 and nothing else gives a true flag: the decoder looks for the
  button codes 0 and 2 only.
\<close>

theorem C3_middle_button_counterexample:
  "mouse_buttons middle_button_event = [1]
   \<and> annotation_action_to_env_action example_const middle_button_event
     = Inr (([(''forward'', PyInt 0), (''attack'', PyInt 0), (''use'', PyInt 0),
              (''camera'', NdArr \<lparr>shape = [2], data = [0, 0]\<rparr>)], True), [])"
  by (simp add: annotation_action_to_env_action_def example_const_def middle_button_event_def
      camera_step_def camera_reset_def abs_int64_def mouse_buttons_step_def)

text \<open>
  Claim C3, amended: when no held key is mapped to the name \<open>camera\<close> and the two
  scaled mouse deltas fit a 64-bit integer (the store into the integer camera array
  raises \<^verbatim>\<open>OverflowError\<close> otherwise, lemma \<open>decoder_overflow\<close>), the decoder returns,
  and its flag is true exactly when no held key is in the keyboard mapping, \<open>dy\<close> and
  \<open>dx\<close> are zero, and neither mouse button 0 nor mouse button 2 is held.  So the idle
  event gives true, and one mapped key, a non-zero \<open>dx\<close> or \<open>dy\<close>, or mouse button 0 or
  2 gives false.  Within the call the flag starts true and no step of the decoder (the
  loop over the keys, the two camera statements, the mouse buttons) turns a false flag
  back to true.
\<close>

theorem C3_is_null_action_characterised:
  assumes "\<forall>k \<in> set (keyboard_keys ev). map_of (KEYBOARD_BUTTON_MAPPING C) k \<noteq> Some ''camera''"
    and "fits_int64 (mouse_dy ev * CAMERA_SCALER C)"
    and "fits_int64 (mouse_dx ev * CAMERA_SCALER C)"
  shows "(\<exists>env printed.
      annotation_action_to_env_action C ev
        = Inr ((env,
                (\<forall>k \<in> set (keyboard_keys ev). map_of (KEYBOARD_BUTTON_MAPPING C) k = None)
                \<and> mouse_dy ev = 0 \<and> mouse_dx ev = 0
                \<and> 0 \<notin> set (mouse_buttons ev) \<and> 2 \<notin> set (mouse_buttons ev)), printed))
    \<and> (\<forall>ks env p. \<not> fst (snd (keys_loop C ks (env, False, p))))
    \<and> (\<forall>d c c' flag'. camera_step C d (c, False) = Inr (c', flag') \<longrightarrow> \<not> flag')
    \<and> (\<forall>bs env. \<not> snd (mouse_buttons_step bs (env, False)))"
proof -
  have "\<not> flag'" if "camera_step C d (c, False) = Inr (c', flag')" for d c c' flag'
    using camera_step_flag [OF that] by simp
  with decoder_flag [OF assms] show ?thesis
    by (simp add: keys_loop_flag mouse_buttons_step_flag) blast
qed

text \<open>
  Witness for C3: the idle event gives a true flag, and the example event (a mapped
  key, \<open>dx = 90\<close>, mouse button 0) a false one.
\<close>

theorem C3_is_null_action_characterised_witness:
  "(\<exists>env printed.
      annotation_action_to_env_action example_const idle_event = Inr ((env, True), printed))
   \<and> (\<exists>env printed.
      annotation_action_to_env_action example_const example_event = Inr ((env, False), printed))"
proof -
  have a: "\<forall>k \<in> set (keyboard_keys idle_event).
      map_of (KEYBOARD_BUTTON_MAPPING example_const) k \<noteq> Some ''camera''"
    by (simp add: idle_event_def)
  have b: "\<forall>k \<in> set (keyboard_keys example_event).
      map_of (KEYBOARD_BUTTON_MAPPING example_const) k \<noteq> Some ''camera''"
    by (simp add: example_event_def example_const_def)
  have za: "fits_int64 (mouse_dy idle_event * CAMERA_SCALER example_const)"
    "fits_int64 (mouse_dx idle_event * CAMERA_SCALER example_const)"
    "fits_int64 (mouse_dy example_event * CAMERA_SCALER example_const)"
    by (simp_all add: idle_event_def example_event_def fits_int64_0)
  have "\<lfloor>27 / 2 :: real\<rfloor> = 13" by (rule floor_unique) simp_all
  then have zb: "fits_int64 (mouse_dx example_event * CAMERA_SCALER example_const)"
    by (simp add: example_event_def example_const_def fits_int64_def truncate_toward_zero_def)
  show ?thesis
    using C3_is_null_action_characterised [OF a za(1) za(2)]
      C3_is_null_action_characterised [OF b za(3) zb]
    by (simp add: idle_event_def example_event_def example_const_def)
qed

section \<open>Claims about the transformer\<close>

lemma dict_to_numpy_always_raises: "isl (dict_to_numpy C self acs)"
  by (simp add: dict_to_numpy_def self_human_spaces_def split: sum.splits option.splits)

text \<open>
  Claim C9 and the code.  The claim: the unbatched conversion \<^verbatim>\<open>dict_to_numpy\<close> succeeds
  on every well-formed action and agrees with the batched conversion \<^verbatim>\<open>env2policy\<close> on a
  batch of size one.  \<^verbatim>\<open>dict_to_numpy\<close> reads \<^verbatim>\<open>self.human_spaces\<close>, an attribute that
  \<^verbatim>\<open>__init__\<close> never sets, so it raises \<^verbatim>\<open>AttributeError\<close> on the example action (and
  returns on no input at all, lemma \<open>dict_to_numpy_always_raises\<close>), while \<^verbatim>\<open>env2policy\<close>
  converts the same action as a batch of size one.
\<close>

theorem C9_dict_to_numpy_raises:
  "dict_to_numpy example_const example_transformer example_env_action
     = Inl (AttributeError ''human_spaces'')
   \<and> env2policy example_const example_transformer example_env_action_batch
     = Inr [(''camera'', \<lparr>shape = [1, 2], data = [5, 10]\<rparr>),
            (''buttons'', \<lparr>shape = [1, 3], data = [1, 1, 0]\<rparr>)]"
  by (simp add: dict_to_numpy_def env2policy_def example_const_def example_transformer_def
      example_env_action_def example_env_action_batch_def self_human_spaces_def
      np_stack_last_def np_asarray_def discretize_camera_def discretize_linear_example)

section \<open>Claims about shape checking\<close>

lemma collect_all_Inr:
  "(\<And>x. x \<in> set xs \<Longrightarrow> f x = Inr (g x)) \<Longrightarrow> collect f xs = Inr (map g xs)"
  by (induction xs) auto

lemma map_filter_the_ndarray: "List.map_filter the_ndarray (map NdArray arrs) = arrs"
  by (induction arrs) (simp_all add: List.map_filter_simps)

lemma map_filter_the_tensor: "List.map_filter the_tensor (map Tensor arrs) = arrs"
  by (induction arrs) (simp_all add: List.map_filter_simps)

lemma check_shapes_arrays:
  "check_shapes (NdArray a) (map NdArray arrs)
     = (if \<forall>b \<in> set arrs. shape b = shape a then Inr ()
        else Inl (AssertionError ''All objects must have the same shape''))"
proof -
  have "collect (\<lambda>e. case shape_attr e of Inl err \<Rightarrow> Inl err
           | Inr s \<Rightarrow> (case shape_attr (NdArray a) of Inl err \<Rightarrow> Inl err | Inr s0 \<Rightarrow> Inr (s = s0)))
          (map NdArray arrs)
        = Inr (map (\<lambda>e. case e of NdArray b \<Rightarrow> shape b = shape a | _ \<Rightarrow> False) (map NdArray arrs))"
    by (rule collect_all_Inr) (auto simp: shape_attr_def)
  then show ?thesis
    by (simp add: check_shapes_def list_all_iff o_def)
qed

lemma sum_list_const:
  "(\<And>x. x \<in> set xs \<Longrightarrow> f x = (c::nat)) \<Longrightarrow> sum_list (map f xs) = length xs * c"
  by (induction xs) auto

lemma np_concatenate_same_shape:
  assumes "arrs \<noteq> []" and "\<forall>b \<in> set arrs. shape b = s" and "s \<noteq> []"
  shows "np_concatenate (map NdArray arrs)
       = Inr (NdArray \<lparr>shape = (length arrs * hd s) # tl s, data = concat (map data arrs)\<rparr>)"
proof -
  obtain a as where arrs: "arrs = a # as"
    using assms(1) by (cases arrs) auto
  have a: "shape a = s" and as: "\<forall>b \<in> set as. shape b = s"
    using assms(2) by (simp_all add: arrs)
  have n: "\<not> (\<exists>e \<in> set (map NdArray arrs). the_ndarray e = None)"
    by auto
  have s: "sum_list (map (\<lambda>b. hd (shape b)) (a # as)) = length arrs * hd s"
    unfolding arrs using a as by (intro sum_list_const) auto
  have "np_concatenate (map NdArray arrs)
      = Inr (NdArray \<lparr>shape = sum_list (map (\<lambda>b. hd (shape b)) (a # as)) # tl (shape a),
                                data = concat (map data (a # as))\<rparr>)"
    unfolding np_concatenate_def if_not_P [OF n] map_filter_the_ndarray
    using a as assms(3) by (simp add: arrs)
  then show ?thesis
    by (simp only: s a arrs)
qed

lemma batch_ndarrays:
  assumes "arrs \<noteq> []"
  shows "batch_recursive_objects C (map NdArray arrs) check_shape
      = batch_leaf C (NdArray (hd arrs)) (map NdArray arrs) check_shape"
  using assms by (cases arrs) simp_all

text \<open>
  Claim C8, as stated, fails.  The claim: with shape checking enabled the batcher
  asserts, at every nesting depth, that the dimensions other than the batch axis agree,
  raises a shape mismatch otherwise, and batches records whose leaves agree in all
  dimensions but the batch axis.  Two arrays of shapes \<open>(1, 2)\<close> and \<open>(2, 2)\<close> agree in
  the dimension other than the batch axis, and batch to shape \<open>(3, 2)\<close> without the
  check, but with the check the assertion fails: it compares whole shapes.  And for
  records that are dictionaries the check is not made at all: leaves of shapes \<open>(1, 2)\<close>
  and \<open>(1, 3)\<close> under the same key reach \<^verbatim>\<open>np.concatenate\<close>, whose \<^verbatim>\<open>ValueError\<close> is raised.
\<close>

theorem C8_shape_check_counterexample:
  "batch_recursive_objects example_const [NdArray arr_1x2, NdArray arr_2x2] True
     = Inl (AssertionError ''All objects must have the same shape'')
   \<and> batch_recursive_objects example_const [NdArray arr_1x2, NdArray arr_2x2] False
     = Inr (NdArray \<lparr>shape = [3, 2], data = [1, 2, 3, 4, 5, 6]\<rparr>)
   \<and> batch_recursive_objects example_const
       [Dict [(''a'', NdArray arr_1x2)], Dict [(''a'', NdArray arr_1x3)]] True
     = Inl (ValueError ''all the input array dimensions except for the concatenation axis must match exactly'')"
  by (simp add: batch_leaf_def check_shapes_def shape_attr_def arr_1x2_def arr_2x2_def arr_1x3_def
      np_concatenate_def List.map_filter_simps getitem_key_def)

text \<open>
  Claim C8, amended: with shape checking enabled and the records being numpy arrays
  themselves, the batcher asserts before concatenating that every record has exactly
  the shape of the first record, the batch axis included.  If some record has another
  shape it raises the \<^verbatim>\<open>AssertionError\<close> \<open>All objects must have the same shape\<close>; if all
  \<open>n\<close> records have the same shape \<open>b # rest\<close> they batch to one array of shape
  \<open>(n * b) # rest\<close> holding their elements in order.
\<close>

theorem C8_shape_check_top_level:
  assumes "arrs \<noteq> []"
  shows "((\<forall>b \<in> set arrs. shape b = shape (hd arrs)) \<and> shape (hd arrs) \<noteq> [] \<longrightarrow>
           batch_recursive_objects C (map NdArray arrs) True
             = Inr (NdArray \<lparr>shape = (length arrs * hd (shape (hd arrs))) # tl (shape (hd arrs)),
                             data = concat (map data arrs)\<rparr>))
       \<and> ((\<exists>b \<in> set arrs. shape b \<noteq> shape (hd arrs)) \<longrightarrow>
           batch_recursive_objects C (map NdArray arrs) True
             = Inl (AssertionError ''All objects must have the same shape''))"
proof (intro conjI impI)
  assume h: "(\<forall>b \<in> set arrs. shape b = shape (hd arrs)) \<and> shape (hd arrs) \<noteq> []"
  then have eq: "\<forall>b \<in> set arrs. shape b = shape (hd arrs)" and ne: "shape (hd arrs) \<noteq> []"
    by blast+
  have cs: "check_shapes (NdArray (hd arrs)) (map NdArray arrs) = Inr ()"
    unfolding check_shapes_arrays using eq by simp
  show "batch_recursive_objects C (map NdArray arrs) True
           = Inr (NdArray \<lparr>shape = (length arrs * hd (shape (hd arrs))) # tl (shape (hd arrs)),
                           data = concat (map data arrs)\<rparr>)"
    unfolding batch_ndarrays [OF assms] batch_leaf_def cs
    by (simp add: np_concatenate_same_shape [OF assms eq ne])
next
  assume "\<exists>b \<in> set arrs. shape b \<noteq> shape (hd arrs)"
  then have cs: "check_shapes (NdArray (hd arrs)) (map NdArray arrs)
      = Inl (AssertionError ''All objects must have the same shape'')"
    unfolding check_shapes_arrays by auto
  show "batch_recursive_objects C (map NdArray arrs) True
           = Inl (AssertionError ''All objects must have the same shape'')"
    unfolding batch_ndarrays [OF assms] batch_leaf_def cs by simp
qed

text \<open>
  Witness for C8: two arrays of shape \<open>(1, 2)\<close> batch to shape \<open>(2, 2)\<close> under the check,
  and arrays of shapes \<open>(1, 2)\<close> and \<open>(1, 3)\<close> fail the assertion.
\<close>

theorem C8_shape_check_top_level_witness:
  "batch_recursive_objects example_const [NdArray arr_1x2, NdArray arr_1x2] True
     = Inr (NdArray \<lparr>shape = [2, 2], data = [1, 2, 1, 2]\<rparr>)
   \<and> batch_recursive_objects example_const [NdArray arr_1x2, NdArray arr_1x3] True
     = Inl (AssertionError ''All objects must have the same shape'')"
proof -
  have a: "[arr_1x2, arr_1x2] \<noteq> []" and b: "[arr_1x2, arr_1x3] \<noteq> []"
    by simp_all
  show ?thesis
    using C8_shape_check_top_level [OF a, of example_const]
      C8_shape_check_top_level [OF b, of example_const]
    by (simp add: arr_1x2_def arr_1x3_def)
qed

section \<open>The batch law\<close>

lemma find_append:
  "find Q (xs @ ys) = (case find Q xs of None \<Rightarrow> find Q ys | Some y \<Rightarrow> Some y)"
  by (induction xs) auto

lemma collect_find:
  assumes "\<And>x. x \<in> set xs \<Longrightarrow>
      (case find Q (L x) of
         Some y \<Rightarrow> f x = Inl (E y)
       | None \<Rightarrow> \<exists>v. f x = Inr v \<and> R x v)"
  shows "case find Q (concat (map L xs)) of
           Some y \<Rightarrow> collect f xs = Inl (E y)
         | None \<Rightarrow> \<exists>vs. collect f xs = Inr vs \<and> list_all2 R xs vs"
  using assms
proof (induction xs)
  case Nil
  then show ?case by simp
next
  case (Cons x xs)
  have hx: "case find Q (L x) of Some y \<Rightarrow> f x = Inl (E y) | None \<Rightarrow> \<exists>v. f x = Inr v \<and> R x v"
    using Cons.prems by simp
  have ih: "case find Q (concat (map L xs)) of
           Some y \<Rightarrow> collect f xs = Inl (E y)
         | None \<Rightarrow> \<exists>vs. collect f xs = Inr vs \<and> list_all2 R xs vs"
    using Cons.IH Cons.prems by simp
  show ?case
  proof (cases "find Q (L x)")
    case (Some y)
    with hx show ?thesis by (simp add: find_append)
  next
    case None
    with hx obtain v where v: "f x = Inr v" "R x v" by auto
    show ?thesis
    proof (cases "find Q (concat (map L xs))")
      case (Some y)
      with ih None v show ?thesis by (simp add: find_append)
    next
      case n2: None
      with ih obtain vs where "collect f xs = Inr vs" "list_all2 R xs vs" by auto
      with None n2 v show ?thesis by (simp add: find_append)
    qed
  qed
qed

lemma np_concatenate_compatible:
  assumes "arrs \<noteq> []"
    and "\<forall>b \<in> set arrs. shape b \<noteq> [] \<and> tl (shape b) = tl (shape (hd arrs))"
  shows "np_concatenate (map NdArray arrs) = Inr (NdArray (concat_arrays arrs))"
proof -
  obtain a as where arrs: "arrs = a # as"
    using assms(1) by (cases arrs) auto
  have a: "shape a \<noteq> []" and as: "\<forall>b \<in> set as. shape b \<noteq> [] \<and> tl (shape b) = tl (shape a)"
    using assms(2) by (simp_all add: arrs)
  have len: "\<forall>b \<in> set as. length (shape b) = length (shape a)"
  proof
    fix b assume "b \<in> set as"
    with as have "shape b \<noteq> []" "tl (shape b) = tl (shape a)" by auto
    then have "length (tl (shape b)) = length (tl (shape a))" by simp
    with \<open>shape b \<noteq> []\<close> a show "length (shape b) = length (shape a)"
      by (cases "shape b"; cases "shape a") auto
  qed
  have n: "\<not> (\<exists>e \<in> set (map NdArray arrs). the_ndarray e = None)"
    by auto
  show ?thesis
    unfolding np_concatenate_def if_not_P [OF n] map_filter_the_ndarray concat_arrays_def
    using a as len by (simp add: arrs)
qed

lemma sum_list_filter_shape:
  "sum_list (map (\<lambda>b. hd (shape b)) (filter (\<lambda>t. shape t \<noteq> [0]) arrs))
     = sum_list (map (\<lambda>b. hd (shape b)) arrs)"
  by (induction arrs) auto

lemma concat_data_filter_shape:
  "\<forall>b \<in> set arrs. wf_ndarray b \<Longrightarrow>
   concat (map data (filter (\<lambda>t. shape t \<noteq> [0]) arrs)) = concat (map data arrs)"
  by (induction arrs) (auto simp: wf_ndarray_def)

lemma th_cat_compatible:
  assumes "arrs \<noteq> []"
    and "\<forall>b \<in> set arrs. wf_ndarray b"
    and "\<forall>b \<in> set arrs. shape b \<noteq> [] \<and> tl (shape b) = tl (shape (hd arrs))"
  shows "th_cat (map Tensor arrs) = Inr (Tensor (concat_arrays arrs))"
proof -
  let ?ts = "filter (\<lambda>t. shape t \<noteq> [0]) arrs"
  have n: "\<not> (\<exists>e \<in> set (map Tensor arrs). the_tensor e = None)"
    by auto
  have ca: "concat_arrays arrs
      = \<lparr>shape = sum_list (map (\<lambda>b. hd (shape b)) ?ts) # tl (shape (hd arrs)),
         data = concat (map data ?ts)\<rparr>"
    unfolding concat_arrays_def
    by (simp only: sum_list_filter_shape concat_data_filter_shape [OF assms(2)])
  show ?thesis
  proof (cases ?ts)
    case Nil
    then have all0: "\<forall>b \<in> set arrs. shape b = [0]"
      by (auto simp: filter_empty_conv)
    then have "shape (hd arrs) = [0]"
      using assms(1) by simp
    then have "concat_arrays arrs = \<lparr>shape = [0], data = []\<rparr>"
      unfolding ca Nil by simp
    then show ?thesis
      unfolding th_cat_def if_not_P [OF n] map_filter_the_tensor Nil
      using assms(1) by simp
  next
    case (Cons a as)
    have sub: "set ?ts \<subseteq> set arrs" by auto
    have mem: "a \<in> set arrs" "set as \<subseteq> set arrs"
      using sub unfolding Cons by auto
    have ne: "\<not> (\<exists>b \<in> set (a # as). shape b = [])"
      using assms(3) mem by auto
    have tla: "tl (shape a) = tl (shape (hd arrs))"
      using assms(3) mem by auto
    have tls: "\<not> (\<exists>b \<in> set as. tl (shape b) \<noteq> tl (shape a))"
      using assms(3) mem tla by auto
    have "th_cat (map Tensor arrs)
        = Inr (Tensor \<lparr>shape = sum_list (map (\<lambda>b. hd (shape b)) (a # as)) # tl (shape a),
                               data = concat (map data (a # as))\<rparr>)"
      unfolding th_cat_def if_not_P [OF n] map_filter_the_tensor Cons list.case
        if_not_P [OF ne] if_not_P [OF tls] ..
    then show ?thesis
      unfolding ca Cons tla .
  qed
qed

lemma container_columns:
  fixes get :: "obj \<Rightarrow> 'k \<Rightarrow> py_error + obj" and S :: "'k \<Rightarrow> step" and ch :: "'k \<Rightarrow> obj"
  assumes ne: "ls \<noteq> []"
    and child: "\<And>k e. k \<in> set ks \<Longrightarrow> e \<in> set ls \<Longrightarrow>
        \<exists>w. get e k = Inr w \<and> wf_obj w \<and> same_structure (ch k) w
           \<and> (\<forall>p. at_path e (S k # p) = at_path w p)"
    and first: "\<And>k. k \<in> set ks \<Longrightarrow> get (hd ls) k = Inr (ch k)"
    and th: "th_bound C \<or> (\<forall>k \<in> set ks. list_all numpy_leaf (leaves (ch k)))"
    and IH: "\<And>k col. k \<in> set ks \<Longrightarrow> collect (\<lambda>d. get d k) ls = Inr col \<Longrightarrow>
        batch_pre C col \<longrightarrow> batch_post C col"
  shows "case find unsupported_leaf (concat (map (\<lambda>k. leaves (ch k)) ks)) of
           Some x \<Rightarrow>
             collect (\<lambda>k. case collect (\<lambda>d. get d k) ls of
                             Inl e \<Rightarrow> Inl e
                           | Inr col \<Rightarrow> batch_recursive_objects C col False) ks
               = Inl (ValueError (''Unsupported type: '' @ type_name x))
         | None \<Rightarrow>
             \<exists>vs. collect (\<lambda>k. case collect (\<lambda>d. get d k) ls of
                                  Inl e \<Rightarrow> Inl e
                                | Inr col \<Rightarrow> batch_recursive_objects C col False) ks = Inr vs
                \<and> list_all2 (\<lambda>k v. leaves_batched (ch k) (\<lambda>p. map (\<lambda>e. array_at e (S k # p)) ls) v)
                     ks vs"
proof (rule collect_find)
  fix k assume k: "k \<in> set ks"
  define col where "col = map (\<lambda>e. projr (get e k)) ls"
  have get: "\<And>e. e \<in> set ls \<Longrightarrow> get e k = Inr (projr (get e k))"
    using child [OF k] by fastforce
  have col: "collect (\<lambda>d. get d k) ls = Inr col"
    unfolding col_def by (rule collect_all_Inr) (rule get)
  have hd: "hd col = ch k"
    unfolding col_def using ne first [OF k] by (simp add: hd_map)
  have pre: "batch_pre C col"
    unfolding batch_pre_def hd
  proof (intro conjI ballI)
    show "col \<noteq> []" using ne by (simp add: col_def)
    fix e' assume "e' \<in> set col"
    then obtain e where e: "e \<in> set ls" "e' = projr (get e k)"
      by (auto simp: col_def)
    with child [OF k e(1)] show "wf_obj e'" "same_structure (ch k) e'"
      by auto
  next
    show "th_bound C \<or> list_all numpy_leaf (leaves (ch k))"
      using th k by auto
  qed
  have post: "batch_post C col"
    using IH [OF k col] pre by simp
  have arr: "map (\<lambda>e. array_at e p) col = map (\<lambda>e. array_at e (S k # p)) ls" for p
  proof -
    have "array_at (projr (get e k)) p = array_at e (S k # p)" if "e \<in> set ls" for e
      using child [OF k that] by (auto simp: array_at_def)
    then show ?thesis
      by (simp add: col_def)
  qed
  show "case find unsupported_leaf (leaves (ch k)) of
          Some y \<Rightarrow>
            (case collect (\<lambda>d. get d k) ls of
               Inl e \<Rightarrow> Inl e
             | Inr col \<Rightarrow> batch_recursive_objects C col False)
              = Inl (ValueError (''Unsupported type: '' @ type_name y))
        | None \<Rightarrow>
            \<exists>v. (case collect (\<lambda>d. get d k) ls of
                    Inl e \<Rightarrow> Inl e
                  | Inr col \<Rightarrow> batch_recursive_objects C col False) = Inr v
               \<and> leaves_batched (ch k) (\<lambda>p. map (\<lambda>e. array_at e (S k # p)) ls) v"
    using post unfolding batch_post_def hd col arr
    by (simp split: option.splits)
qed

lemma same_structure_DictD:
  assumes "same_structure (Dict a) e"
  shows "\<exists>b. e = Dict b \<and> set (map fst a) = set (map fst b)
    \<and> (\<forall>k v. (k, v) \<in> set a \<longrightarrow> (\<exists>w. map_of b k = Some w \<and> same_structure v w))"
  using assms by (cases e) (auto split: option.splits)

lemma at_path_Dict_array:
  assumes "at_path (Dict items) p = Some x" and "x = NdArray a \<or> x = Tensor a"
  obtains k p' v where "p = Key k # p'" "map_of items k = Some v" "at_path v p' = Some x"
proof (cases p)
  case Nil
  with assms show ?thesis by auto
next
  case (Cons s p')
  with assms(1) show ?thesis
    by (cases s) (auto split: option.splits intro: that)
qed

lemma leaves_subset_dict:
  "(k, v) \<in> set items \<Longrightarrow> set (leaves v) \<subseteq> set (leaves (Dict items))"
  by auto

lemma batch_dict_case:
  assumes pre: "batch_pre C (Dict items # rest)"
    and IH: "\<And>k col. k \<in> set (map fst items) \<Longrightarrow>
        collect (\<lambda>d. getitem_key d k) (Dict items # rest) = Inr col \<Longrightarrow>
        batch_pre C col \<longrightarrow> batch_post C col"
  shows "batch_post C (Dict items # rest)"
proof -
  let ?ls = "Dict items # rest"
  let ?ks = "map fst items"
  define ch where "ch k = the (map_of items k)" for k
  have dist: "distinct ?ks"
    and all: "\<And>e. e \<in> set ?ls \<Longrightarrow> wf_obj e \<and> same_structure (Dict items) e"
    and th: "th_bound C \<or> list_all numpy_leaf (leaves (Dict items))"
    using pre by (auto simp: batch_pre_def)
  have ch: "ch k = v" if "(k, v) \<in> set items" for k v
    using that dist by (simp add: ch_def)
  have mem: "(k, ch k) \<in> set items" if "k \<in> set ?ks" for k
    using that ch by force
  have cols: "case find unsupported_leaf (concat (map (\<lambda>k. leaves (ch k)) ?ks)) of
           Some x \<Rightarrow>
             collect (\<lambda>k. case collect (\<lambda>d. getitem_key d k) ?ls of
                             Inl e \<Rightarrow> Inl e
                           | Inr col \<Rightarrow> batch_recursive_objects C col False) ?ks
               = Inl (ValueError (''Unsupported type: '' @ type_name x))
         | None \<Rightarrow>
             \<exists>vs. collect (\<lambda>k. case collect (\<lambda>d. getitem_key d k) ?ls of
                                  Inl e \<Rightarrow> Inl e
                                | Inr col \<Rightarrow> batch_recursive_objects C col False) ?ks = Inr vs
                \<and> list_all2 (\<lambda>k v. leaves_batched (ch k) (\<lambda>p. map (\<lambda>e. array_at e (Key k # p)) ?ls) v)
                     ?ks vs"
  proof (rule container_columns)
    show "?ls \<noteq> []" by simp
  next
    fix k e assume k: "k \<in> set ?ks" and e: "e \<in> set ?ls"
    from all [OF e] have wf: "wf_obj e" and ss: "same_structure (Dict items) e"
      by simp_all
    from same_structure_DictD [OF ss] obtain b where b: "e = Dict b"
      and vals: "\<forall>k v. (k, v) \<in> set items \<longrightarrow> (\<exists>w. map_of b k = Some w \<and> same_structure v w)"
      by blast
    from vals mem [OF k] obtain w where w: "map_of b k = Some w" "same_structure (ch k) w"
      by blast
    from w(1) have "(k, w) \<in> set b" by (rule map_of_SomeD)
    with wf b have "wf_obj w" by auto
    with w b show "\<exists>w. getitem_key e k = Inr w \<and> wf_obj w \<and> same_structure (ch k) w
        \<and> (\<forall>p. at_path e (Key k # p) = at_path w p)"
      by (simp add: getitem_key_def)
  next
    fix k assume "k \<in> set ?ks"
    then have "map_of items k = Some (ch k)"
      using mem dist by simp
    then show "getitem_key (hd ?ls) k = Inr (ch k)"
      by (simp add: getitem_key_def)
  next
    show "th_bound C \<or> (\<forall>k \<in> set ?ks. list_all numpy_leaf (leaves (ch k)))"
    proof (cases "th_bound C")
      case False
      with th have l: "\<forall>x \<in> set (leaves (Dict items)). numpy_leaf x"
        by (simp add: list_all_iff)
      have "list_all numpy_leaf (leaves (ch k))" if "k \<in> set ?ks" for k
        using leaves_subset_dict [OF mem [OF that]] l unfolding list_all_iff by blast
      then show ?thesis by blast
    qed simp
  next
    fix k col
    assume "k \<in> set ?ks" "collect (\<lambda>d. getitem_key d k) ?ls = Inr col"
    then show "batch_pre C col \<longrightarrow> batch_post C col"
      by (rule IH)
  qed
  have lv: "concat (map (\<lambda>k. leaves (ch k)) ?ks) = leaves (Dict items)"
  proof -
    have "map (\<lambda>k. leaves (ch k)) ?ks = map (\<lambda>(k, v). leaves v) items"
      unfolding map_map by (rule map_cong) (auto simp: ch)
    then show ?thesis by (simp only: leaves.simps)
  qed
  show ?thesis
  proof (cases "find unsupported_leaf (leaves (Dict items))")
    case (Some x)
    with cols have "batch_recursive_objects C ?ls False
        = Inl (ValueError (''Unsupported type: '' @ type_name x))"
      unfolding lv by (simp only: batch_recursive_objects.simps option.case sum.case)
    with Some show ?thesis
      unfolding batch_post_def by simp
  next
    case None
    with cols obtain vs where
      vs: "collect (\<lambda>k. case collect (\<lambda>d. getitem_key d k) ?ls of
                                  Inl e \<Rightarrow> Inl e
                                | Inr col \<Rightarrow> batch_recursive_objects C col False) ?ks = Inr vs"
      and R: "list_all2 (\<lambda>k v. leaves_batched (ch k) (\<lambda>p. map (\<lambda>e. array_at e (Key k # p)) ?ls) v)
                     ?ks vs"
      unfolding lv by auto
    have len: "length ?ks = length vs"
      using R by (rule list_all2_lengthD)
    have Rk: "\<exists>v. map_of (zip ?ks vs) k = Some v
        \<and> leaves_batched (ch k) (\<lambda>p. map (\<lambda>e. array_at e (Key k # p)) ?ls) v"
      if "k \<in> set ?ks" for k
    proof -
      from that obtain i where i: "i < length ?ks" "?ks ! i = k"
        by (auto simp: in_set_conv_nth)
      have "map_of (zip ?ks vs) (?ks ! i) = Some (vs ! i)"
        using len dist i(1) by (intro map_of_zip_nth) simp_all
      moreover have "leaves_batched (ch (?ks ! i)) (\<lambda>p. map (\<lambda>e. array_at e (Key (?ks ! i) # p)) ?ls) (vs ! i)"
        using R i(1) by (simp add: list_all2_conv_all_nth)
      ultimately show ?thesis
        unfolding i(2) by blast
    qed
    have res: "batch_recursive_objects C ?ls False = Inr (Dict (zip ?ks vs))"
      by (simp only: batch_recursive_objects.simps vs sum.case)
    have "leaves_batched (Dict items) (\<lambda>p. map (\<lambda>e. array_at e p) ?ls) (Dict (zip ?ks vs))"
      unfolding leaves_batched_def
    proof (intro conjI allI impI)
      have "set ?ks = set (map fst (zip ?ks vs))"
        using len by simp
      moreover have "case map_of (zip ?ks vs) k of Some w \<Rightarrow> same_structure v w | None \<Rightarrow> False"
        if "(k, v) \<in> set items" for k v
      proof -
        from that have "k \<in> set ?ks" by force
        from Rk [OF this] ch [OF that] show ?thesis
          by (auto simp: leaves_batched_def)
      qed
      ultimately show "same_structure (Dict items) (Dict (zip ?ks vs))"
        by auto
    next
      fix p a assume "at_path (Dict items) p = Some (NdArray a)"
      then obtain k p' v where p: "p = Key k # p'" "map_of items k = Some v"
          "at_path v p' = Some (NdArray a)"
        by (rule at_path_Dict_array) simp
      from p(2) have kv: "(k, v) \<in> set items" by (rule map_of_SomeD)
      then have "k \<in> set ?ks" by force
      from Rk [OF this] ch [OF kv] p(3)
      show "at_path (Dict (zip ?ks vs)) p
          = Some (NdArray (concat_arrays (map (\<lambda>e. array_at e p) ?ls)))"
        unfolding p(1) by (auto simp: leaves_batched_def)
    next
      fix p a assume "at_path (Dict items) p = Some (Tensor a)"
      then obtain k p' v where p: "p = Key k # p'" "map_of items k = Some v"
          "at_path v p' = Some (Tensor a)"
        by (rule at_path_Dict_array) simp
      from p(2) have kv: "(k, v) \<in> set items" by (rule map_of_SomeD)
      then have "k \<in> set ?ks" by force
      from Rk [OF this] ch [OF kv] p(3)
      show "at_path (Dict (zip ?ks vs)) p
          = Some (Tensor (concat_arrays (map (\<lambda>e. array_at e p) ?ls)))"
        unfolding p(1) by (auto simp: leaves_batched_def)
    qed
    with res None show ?thesis
      unfolding batch_post_def by simp
  qed
qed

lemma same_structure_ListVD:
  assumes "same_structure (ListV xs) e"
  shows "\<exists>ys. e = ListV ys \<and> list_all2 same_structure xs ys"
  using assms by (cases e) auto

lemma at_path_ListV_array:
  assumes "at_path (ListV xs) p = Some x" and "x = NdArray a \<or> x = Tensor a"
  shows "\<exists>i p'. p = Index i # p' \<and> i < length xs \<and> at_path (xs ! i) p' = Some x"
proof (cases p)
  case Nil
  with assms show ?thesis by auto
next
  case (Cons s p')
  with assms(1) show ?thesis
    by (cases s) (auto split: if_splits)
qed

lemma batch_ListV_case:
  assumes pre: "batch_pre C (ListV xs # rest)"
    and IH: "\<And>i col. i \<in> set [0..<length xs] \<Longrightarrow>
        collect (\<lambda>l. getitem_index l i) (ListV xs # rest) = Inr col \<Longrightarrow>
        batch_pre C col \<longrightarrow> batch_post C col"
  shows "batch_post C (ListV xs # rest)"
proof -
  let ?ls = "ListV xs # rest"
  let ?ks = "[0..<length xs]"
  have all: "\<And>e. e \<in> set ?ls \<Longrightarrow> wf_obj e \<and> same_structure (ListV xs) e"
    and th: "th_bound C \<or> list_all numpy_leaf (leaves (ListV xs))"
    using pre by (auto simp: batch_pre_def)
  have cols: "case find unsupported_leaf (concat (map (\<lambda>i. leaves (xs ! i)) ?ks)) of
           Some x \<Rightarrow>
             collect (\<lambda>i. case collect (\<lambda>l. getitem_index l i) ?ls of
                             Inl e \<Rightarrow> Inl e
                           | Inr col \<Rightarrow> batch_recursive_objects C col False) ?ks
               = Inl (ValueError (''Unsupported type: '' @ type_name x))
         | None \<Rightarrow>
             \<exists>vs. collect (\<lambda>i. case collect (\<lambda>l. getitem_index l i) ?ls of
                                  Inl e \<Rightarrow> Inl e
                                | Inr col \<Rightarrow> batch_recursive_objects C col False) ?ks = Inr vs
                \<and> list_all2 (\<lambda>i v. leaves_batched (xs ! i) (\<lambda>p. map (\<lambda>e. array_at e (Index i # p)) ?ls) v)
                     ?ks vs"
  proof (rule container_columns)
    show "?ls \<noteq> []" by simp
  next
    fix i e assume i: "i \<in> set ?ks" and e: "e \<in> set ?ls"
    from all [OF e] have wf: "wf_obj e" and ss: "same_structure (ListV xs) e"
      by simp_all
    from same_structure_ListVD [OF ss] obtain ys where ys: "e = ListV ys"
      and l2: "list_all2 same_structure xs ys"
      by blast
    from l2 i have iy: "i < length ys" and s: "same_structure (xs ! i) (ys ! i)"
      by (auto simp: list_all2_conv_all_nth)
    from wf ys iy have "wf_obj (ys ! i)" by simp
    with iy s ys show "\<exists>w. getitem_index e i = Inr w \<and> wf_obj w \<and> same_structure (xs ! i) w
        \<and> (\<forall>p. at_path e (Index i # p) = at_path w p)"
      by (simp add: getitem_index_def)
  next
    fix i assume "i \<in> set ?ks"
    then show "getitem_index (hd ?ls) i = Inr (xs ! i)"
      by (simp add: getitem_index_def)
  next
    show "th_bound C \<or> (\<forall>i \<in> set ?ks. list_all numpy_leaf (leaves (xs ! i)))"
    proof (cases "th_bound C")
      case False
      with th have l: "\<forall>x \<in> set (leaves (ListV xs)). numpy_leaf x"
        by (simp add: list_all_iff)
      have "list_all numpy_leaf (leaves (xs ! i))" if "i \<in> set ?ks" for i
      proof -
        from that have "xs ! i \<in> set xs" by simp
        then have "set (leaves (xs ! i)) \<subseteq> set (leaves (ListV xs))" by auto
        with l show ?thesis unfolding list_all_iff by blast
      qed
      then show ?thesis by blast
    qed simp
  next
    fix i col
    assume "i \<in> set ?ks" "collect (\<lambda>l. getitem_index l i) ?ls = Inr col"
    then show "batch_pre C col \<longrightarrow> batch_post C col"
      by (rule IH)
  qed
  have lv: "concat (map (\<lambda>i. leaves (xs ! i)) ?ks) = leaves (ListV xs)"
  proof -
    have "map (\<lambda>i. leaves (xs ! i)) ?ks = map leaves xs"
      by (rule nth_equalityI) simp_all
    then show ?thesis by (simp only: leaves.simps)
  qed
  show ?thesis
  proof (cases "find unsupported_leaf (leaves (ListV xs))")
    case (Some x)
    with cols have "batch_recursive_objects C ?ls False
        = Inl (ValueError (''Unsupported type: '' @ type_name x))"
      unfolding lv by (simp only: batch_recursive_objects.simps option.case sum.case)
    with Some show ?thesis
      unfolding batch_post_def by simp
  next
    case None
    with cols obtain vs where
      vs: "collect (\<lambda>i. case collect (\<lambda>l. getitem_index l i) ?ls of
                                  Inl e \<Rightarrow> Inl e
                                | Inr col \<Rightarrow> batch_recursive_objects C col False) ?ks = Inr vs"
      and R: "list_all2 (\<lambda>i v. leaves_batched (xs ! i) (\<lambda>p. map (\<lambda>e. array_at e (Index i # p)) ?ls) v)
                     ?ks vs"
      unfolding lv by auto
    have len: "length vs = length xs"
      using list_all2_lengthD [OF R] by simp
    have Ri: "leaves_batched (xs ! i) (\<lambda>p. map (\<lambda>e. array_at e (Index i # p)) ?ls) (vs ! i)"
      if "i < length xs" for i
      using R that by (simp add: list_all2_conv_all_nth)
    have res: "batch_recursive_objects C ?ls False = Inr (ListV vs)"
      by (simp only: batch_recursive_objects.simps vs sum.case)
    have "leaves_batched (ListV xs) (\<lambda>p. map (\<lambda>e. array_at e p) ?ls) (ListV vs)"
      unfolding leaves_batched_def
    proof (intro conjI allI impI)
      show "same_structure (ListV xs) (ListV vs)"
        using Ri len by (simp add: list_all2_conv_all_nth leaves_batched_def)
    next
      fix p a assume "at_path (ListV xs) p = Some (NdArray a)"
      then obtain i p' where p: "p = Index i # p'" "i < length xs"
          "at_path (xs ! i) p' = Some (NdArray a)"
        using at_path_ListV_array by blast
      from Ri [OF p(2)] p(2,3) len
      show "at_path (ListV vs) p
          = Some (NdArray (concat_arrays (map (\<lambda>e. array_at e p) ?ls)))"
        unfolding p(1) by (auto simp: leaves_batched_def)
    next
      fix p a assume "at_path (ListV xs) p = Some (Tensor a)"
      then obtain i p' where p: "p = Index i # p'" "i < length xs"
          "at_path (xs ! i) p' = Some (Tensor a)"
        using at_path_ListV_array by blast
      from Ri [OF p(2)] p(2,3) len
      show "at_path (ListV vs) p
          = Some (Tensor (concat_arrays (map (\<lambda>e. array_at e p) ?ls)))"
        unfolding p(1) by (auto simp: leaves_batched_def)
    qed
    with res None show ?thesis
      unfolding batch_post_def by simp
  qed
qed

lemma same_structure_TupleVD:
  assumes "same_structure (TupleV xs) e"
  shows "\<exists>ys. e = TupleV ys \<and> list_all2 same_structure xs ys"
  using assms by (cases e) auto

lemma at_path_TupleV_array:
  assumes "at_path (TupleV xs) p = Some x" and "x = NdArray a \<or> x = Tensor a"
  shows "\<exists>i p'. p = Index i # p' \<and> i < length xs \<and> at_path (xs ! i) p' = Some x"
proof (cases p)
  case Nil
  with assms show ?thesis by auto
next
  case (Cons s p')
  with assms(1) show ?thesis
    by (cases s) (auto split: if_splits)
qed

lemma batch_TupleV_case:
  assumes pre: "batch_pre C (TupleV xs # rest)"
    and IH: "\<And>i col. i \<in> set [0..<length xs] \<Longrightarrow>
        collect (\<lambda>l. getitem_index l i) (TupleV xs # rest) = Inr col \<Longrightarrow>
        batch_pre C col \<longrightarrow> batch_post C col"
  shows "batch_post C (TupleV xs # rest)"
proof -
  let ?ls = "TupleV xs # rest"
  let ?ks = "[0..<length xs]"
  have all: "\<And>e. e \<in> set ?ls \<Longrightarrow> wf_obj e \<and> same_structure (TupleV xs) e"
    and th: "th_bound C \<or> list_all numpy_leaf (leaves (TupleV xs))"
    using pre by (auto simp: batch_pre_def)
  have cols: "case find unsupported_leaf (concat (map (\<lambda>i. leaves (xs ! i)) ?ks)) of
           Some x \<Rightarrow>
             collect (\<lambda>i. case collect (\<lambda>l. getitem_index l i) ?ls of
                             Inl e \<Rightarrow> Inl e
                           | Inr col \<Rightarrow> batch_recursive_objects C col False) ?ks
               = Inl (ValueError (''Unsupported type: '' @ type_name x))
         | None \<Rightarrow>
             \<exists>vs. collect (\<lambda>i. case collect (\<lambda>l. getitem_index l i) ?ls of
                                  Inl e \<Rightarrow> Inl e
                                | Inr col \<Rightarrow> batch_recursive_objects C col False) ?ks = Inr vs
                \<and> list_all2 (\<lambda>i v. leaves_batched (xs ! i) (\<lambda>p. map (\<lambda>e. array_at e (Index i # p)) ?ls) v)
                     ?ks vs"
  proof (rule container_columns)
    show "?ls \<noteq> []" by simp
  next
    fix i e assume i: "i \<in> set ?ks" and e: "e \<in> set ?ls"
    from all [OF e] have wf: "wf_obj e" and ss: "same_structure (TupleV xs) e"
      by simp_all
    from same_structure_TupleVD [OF ss] obtain ys where ys: "e = TupleV ys"
      and l2: "list_all2 same_structure xs ys"
      by blast
    from l2 i have iy: "i < length ys" and s: "same_structure (xs ! i) (ys ! i)"
      by (auto simp: list_all2_conv_all_nth)
    from wf ys iy have "wf_obj (ys ! i)" by simp
    with iy s ys show "\<exists>w. getitem_index e i = Inr w \<and> wf_obj w \<and> same_structure (xs ! i) w
        \<and> (\<forall>p. at_path e (Index i # p) = at_path w p)"
      by (simp add: getitem_index_def)
  next
    fix i assume "i \<in> set ?ks"
    then show "getitem_index (hd ?ls) i = Inr (xs ! i)"
      by (simp add: getitem_index_def)
  next
    show "th_bound C \<or> (\<forall>i \<in> set ?ks. list_all numpy_leaf (leaves (xs ! i)))"
    proof (cases "th_bound C")
      case False
      with th have l: "\<forall>x \<in> set (leaves (TupleV xs)). numpy_leaf x"
        by (simp add: list_all_iff)
      have "list_all numpy_leaf (leaves (xs ! i))" if "i \<in> set ?ks" for i
      proof -
        from that have "xs ! i \<in> set xs" by simp
        then have "set (leaves (xs ! i)) \<subseteq> set (leaves (TupleV xs))" by auto
        with l show ?thesis unfolding list_all_iff by blast
      qed
      then show ?thesis by blast
    qed simp
  next
    fix i col
    assume "i \<in> set ?ks" "collect (\<lambda>l. getitem_index l i) ?ls = Inr col"
    then show "batch_pre C col \<longrightarrow> batch_post C col"
      by (rule IH)
  qed
  have lv: "concat (map (\<lambda>i. leaves (xs ! i)) ?ks) = leaves (TupleV xs)"
  proof -
    have "map (\<lambda>i. leaves (xs ! i)) ?ks = map leaves xs"
      by (rule nth_equalityI) simp_all
    then show ?thesis by (simp only: leaves.simps)
  qed
  show ?thesis
  proof (cases "find unsupported_leaf (leaves (TupleV xs))")
    case (Some x)
    with cols have "batch_recursive_objects C ?ls False
        = Inl (ValueError (''Unsupported type: '' @ type_name x))"
      unfolding lv by (simp only: batch_recursive_objects.simps option.case sum.case)
    with Some show ?thesis
      unfolding batch_post_def by simp
  next
    case None
    with cols obtain vs where
      vs: "collect (\<lambda>i. case collect (\<lambda>l. getitem_index l i) ?ls of
                                  Inl e \<Rightarrow> Inl e
                                | Inr col \<Rightarrow> batch_recursive_objects C col False) ?ks = Inr vs"
      and R: "list_all2 (\<lambda>i v. leaves_batched (xs ! i) (\<lambda>p. map (\<lambda>e. array_at e (Index i # p)) ?ls) v)
                     ?ks vs"
      unfolding lv by auto
    have len: "length vs = length xs"
      using list_all2_lengthD [OF R] by simp
    have Ri: "leaves_batched (xs ! i) (\<lambda>p. map (\<lambda>e. array_at e (Index i # p)) ?ls) (vs ! i)"
      if "i < length xs" for i
      using R that by (simp add: list_all2_conv_all_nth)
    have res: "batch_recursive_objects C ?ls False = Inr (TupleV vs)"
      by (simp only: batch_recursive_objects.simps vs sum.case)
    have "leaves_batched (TupleV xs) (\<lambda>p. map (\<lambda>e. array_at e p) ?ls) (TupleV vs)"
      unfolding leaves_batched_def
    proof (intro conjI allI impI)
      show "same_structure (TupleV xs) (TupleV vs)"
        using Ri len by (simp add: list_all2_conv_all_nth leaves_batched_def)
    next
      fix p a assume "at_path (TupleV xs) p = Some (NdArray a)"
      then obtain i p' where p: "p = Index i # p'" "i < length xs"
          "at_path (xs ! i) p' = Some (NdArray a)"
        using at_path_TupleV_array by blast
      from Ri [OF p(2)] p(2,3) len
      show "at_path (TupleV vs) p
          = Some (NdArray (concat_arrays (map (\<lambda>e. array_at e p) ?ls)))"
        unfolding p(1) by (auto simp: leaves_batched_def)
    next
      fix p a assume "at_path (TupleV xs) p = Some (Tensor a)"
      then obtain i p' where p: "p = Index i # p'" "i < length xs"
          "at_path (xs ! i) p' = Some (Tensor a)"
        using at_path_TupleV_array by blast
      from Ri [OF p(2)] p(2,3) len
      show "at_path (TupleV vs) p
          = Some (Tensor (concat_arrays (map (\<lambda>e. array_at e p) ?ls)))"
        unfolding p(1) by (auto simp: leaves_batched_def)
    qed
    with res None show ?thesis
      unfolding batch_post_def by simp
  qed
qed

lemma same_structure_NamedTupleD:
  assumes "same_structure (NamedTuple c fs) e"
  shows "\<exists>fs'. e = NamedTuple c fs'
    \<and> list_all2 (\<lambda>(f, v) (f', w). f = f' \<and> same_structure v w) fs fs'"
  using assms by (cases e) auto

lemma at_path_NamedTuple_array:
  assumes "at_path (NamedTuple c fs) p = Some x" and "x = NdArray a \<or> x = Tensor a"
  shows "\<exists>f p' v. p = Field f # p' \<and> map_of fs f = Some v \<and> at_path v p' = Some x"
proof (cases p)
  case Nil
  with assms show ?thesis by auto
next
  case (Cons s p')
  with assms(1) show ?thesis
    by (cases s) (auto split: option.splits)
qed

lemma batch_NamedTuple_case:
  assumes pre: "batch_pre C (NamedTuple c fs # rest)"
    and IH: "\<And>f col. f \<in> set (map fst fs) \<Longrightarrow>
        collect (\<lambda>l. getattr_field l f) (NamedTuple c fs # rest) = Inr col \<Longrightarrow>
        batch_pre C col \<longrightarrow> batch_post C col"
  shows "batch_post C (NamedTuple c fs # rest)"
proof -
  let ?ls = "NamedTuple c fs # rest"
  let ?ks = "map fst fs"
  define ch where "ch f = the (map_of fs f)" for f
  have dist: "distinct ?ks"
    and all: "\<And>e. e \<in> set ?ls \<Longrightarrow> wf_obj e \<and> same_structure (NamedTuple c fs) e"
    and th: "th_bound C \<or> list_all numpy_leaf (leaves (NamedTuple c fs))"
    using pre by (auto simp: batch_pre_def)
  have ch: "ch f = v" if "(f, v) \<in> set fs" for f v
    using that dist by (simp add: ch_def)
  have chi: "ch (?ks ! i) = snd (fs ! i)" if "i < length fs" for i
  proof -
    have "(fst (fs ! i), snd (fs ! i)) \<in> set fs"
      using that by simp
    then have "ch (fst (fs ! i)) = snd (fs ! i)" by (rule ch)
    then show ?thesis using that by simp
  qed
  have mem: "(f, ch f) \<in> set fs" if "f \<in> set ?ks" for f
    using that ch by force
  have cols: "case find unsupported_leaf (concat (map (\<lambda>f. leaves (ch f)) ?ks)) of
           Some x \<Rightarrow>
             collect (\<lambda>f. case collect (\<lambda>l. getattr_field l f) ?ls of
                             Inl e \<Rightarrow> Inl e
                           | Inr col \<Rightarrow> batch_recursive_objects C col False) ?ks
               = Inl (ValueError (''Unsupported type: '' @ type_name x))
         | None \<Rightarrow>
             \<exists>vs. collect (\<lambda>f. case collect (\<lambda>l. getattr_field l f) ?ls of
                                  Inl e \<Rightarrow> Inl e
                                | Inr col \<Rightarrow> batch_recursive_objects C col False) ?ks = Inr vs
                \<and> list_all2 (\<lambda>f v. leaves_batched (ch f) (\<lambda>p. map (\<lambda>e. array_at e (Field f # p)) ?ls) v)
                     ?ks vs"
  proof (rule container_columns)
    show "?ls \<noteq> []" by simp
  next
    fix f e assume f: "f \<in> set ?ks" and e: "e \<in> set ?ls"
    from all [OF e] have wf: "wf_obj e" and ss: "same_structure (NamedTuple c fs) e"
      by simp_all
    from same_structure_NamedTupleD [OF ss] obtain fs' where fs': "e = NamedTuple c fs'"
      and l2: "list_all2 (\<lambda>(f, v) (f', w). f = f' \<and> same_structure v w) fs fs'"
      by blast
    from f obtain i where i: "i < length fs" "fst (fs ! i) = f"
      by (auto simp: in_set_conv_nth)
    from l2 i(1) have i': "i < length fs'"
      and rel: "(\<lambda>(f, v) (f', w). f = f' \<and> same_structure v w) (fs ! i) (fs' ! i)"
      by (auto simp: list_all2_conv_all_nth)
    obtain w where w: "fs' ! i = (f, w)" "same_structure (snd (fs ! i)) w"
      using rel i(2) by (cases "fs ! i"; cases "fs' ! i") auto
    have "ch f = snd (fs ! i)"
      using chi [OF i(1)] i by simp
    with w have s: "same_structure (ch f) w" by simp
    have in': "(f, w) \<in> set fs'"
      using w(1) i' by (metis nth_mem)
    have "distinct (map fst fs')" using wf fs' by simp
    with in' have m: "map_of fs' f = Some w" by simp
    have "wf_obj w" using wf fs' in' by auto
    with m s fs' show "\<exists>w. getattr_field e f = Inr w \<and> wf_obj w \<and> same_structure (ch f) w
        \<and> (\<forall>p. at_path e (Field f # p) = at_path w p)"
      by (simp add: getattr_field_def)
  next
    fix f assume "f \<in> set ?ks"
    then have "map_of fs f = Some (ch f)"
      using mem dist by simp
    then show "getattr_field (hd ?ls) f = Inr (ch f)"
      by (simp add: getattr_field_def)
  next
    show "th_bound C \<or> (\<forall>f \<in> set ?ks. list_all numpy_leaf (leaves (ch f)))"
    proof (cases "th_bound C")
      case False
      with th have l: "\<forall>x \<in> set (leaves (NamedTuple c fs)). numpy_leaf x"
        by (simp add: list_all_iff)
      have "list_all numpy_leaf (leaves (ch f))" if "f \<in> set ?ks" for f
      proof -
        from mem [OF that] have "set (leaves (ch f)) \<subseteq> set (leaves (NamedTuple c fs))"
          by auto
        with l show ?thesis unfolding list_all_iff by blast
      qed
      then show ?thesis by blast
    qed simp
  next
    fix f col
    assume "f \<in> set ?ks" "collect (\<lambda>l. getattr_field l f) ?ls = Inr col"
    then show "batch_pre C col \<longrightarrow> batch_post C col"
      by (rule IH)
  qed
  have lv: "concat (map (\<lambda>f. leaves (ch f)) ?ks) = leaves (NamedTuple c fs)"
  proof -
    have "map (\<lambda>f. leaves (ch f)) ?ks = map (\<lambda>(f, v). leaves v) fs"
      unfolding map_map by (rule map_cong) (auto simp: ch)
    then show ?thesis by (simp only: leaves.simps)
  qed
  show ?thesis
  proof (cases "find unsupported_leaf (leaves (NamedTuple c fs))")
    case (Some x)
    with cols have "batch_recursive_objects C ?ls False
        = Inl (ValueError (''Unsupported type: '' @ type_name x))"
      unfolding lv by (simp only: batch_recursive_objects.simps option.case sum.case)
    with Some show ?thesis
      unfolding batch_post_def by simp
  next
    case None
    with cols obtain vs where
      vs: "collect (\<lambda>f. case collect (\<lambda>l. getattr_field l f) ?ls of
                                  Inl e \<Rightarrow> Inl e
                                | Inr col \<Rightarrow> batch_recursive_objects C col False) ?ks = Inr vs"
      and R: "list_all2 (\<lambda>f v. leaves_batched (ch f) (\<lambda>p. map (\<lambda>e. array_at e (Field f # p)) ?ls) v)
                     ?ks vs"
      unfolding lv by auto
    have len: "length ?ks = length vs"
      using R by (rule list_all2_lengthD)
    have Ri: "leaves_batched (ch (?ks ! i)) (\<lambda>p. map (\<lambda>e. array_at e (Field (?ks ! i) # p)) ?ls) (vs ! i)"
      if "i < length fs" for i
      using R that by (simp add: list_all2_conv_all_nth)
    have Rk: "\<exists>v. map_of (zip ?ks vs) f = Some v
        \<and> leaves_batched (ch f) (\<lambda>p. map (\<lambda>e. array_at e (Field f # p)) ?ls) v"
      if "f \<in> set ?ks" for f
    proof -
      from that obtain i where i: "i < length ?ks" "?ks ! i = f"
        by (auto simp: in_set_conv_nth)
      have "map_of (zip ?ks vs) (?ks ! i) = Some (vs ! i)"
        using len dist i(1) by (intro map_of_zip_nth) simp_all
      moreover have "leaves_batched (ch (?ks ! i)) (\<lambda>p. map (\<lambda>e. array_at e (Field (?ks ! i) # p)) ?ls) (vs ! i)"
        using Ri i(1) by simp
      ultimately show ?thesis
        unfolding i(2) by blast
    qed
    have res: "batch_recursive_objects C ?ls False = Inr (NamedTuple c (zip ?ks vs))"
      by (simp only: batch_recursive_objects.simps vs sum.case)
    have "leaves_batched (NamedTuple c fs) (\<lambda>p. map (\<lambda>e. array_at e p) ?ls) (NamedTuple c (zip ?ks vs))"
      unfolding leaves_batched_def
    proof (intro conjI allI impI)
      have "list_all2 (\<lambda>(f, v) (f', w). f = f' \<and> same_structure v w) fs (zip ?ks vs)"
        unfolding list_all2_conv_all_nth
      proof (intro conjI allI impI)
        show "length fs = length (zip ?ks vs)" using len by simp
      next
        fix i assume i: "i < length fs"
        have "same_structure (snd (fs ! i)) (vs ! i)"
          using Ri [OF i] chi [OF i] by (simp add: leaves_batched_def)
        moreover have "zip ?ks vs ! i = (fst (fs ! i), vs ! i)"
          using i len by simp
        ultimately show "(case fs ! i of (f, v) \<Rightarrow> \<lambda>(f', w). f = f' \<and> same_structure v w) (zip ?ks vs ! i)"
          by (simp add: case_prod_beta)
      qed
      then show "same_structure (NamedTuple c fs) (NamedTuple c (zip ?ks vs))"
        by simp
    next
      fix p a assume "at_path (NamedTuple c fs) p = Some (NdArray a)"
      then obtain f p' v where p: "p = Field f # p'" "map_of fs f = Some v"
          "at_path v p' = Some (NdArray a)"
        using at_path_NamedTuple_array by blast
      from p(2) have kv: "(f, v) \<in> set fs" by (rule map_of_SomeD)
      then have "f \<in> set ?ks" by force
      from Rk [OF this] ch [OF kv] p(3)
      show "at_path (NamedTuple c (zip ?ks vs)) p
          = Some (NdArray (concat_arrays (map (\<lambda>e. array_at e p) ?ls)))"
        unfolding p(1) by (auto simp: leaves_batched_def)
    next
      fix p a assume "at_path (NamedTuple c fs) p = Some (Tensor a)"
      then obtain f p' v where p: "p = Field f # p'" "map_of fs f = Some v"
          "at_path v p' = Some (Tensor a)"
        using at_path_NamedTuple_array by blast
      from p(2) have kv: "(f, v) \<in> set fs" by (rule map_of_SomeD)
      then have "f \<in> set ?ks" by force
      from Rk [OF this] ch [OF kv] p(3)
      show "at_path (NamedTuple c (zip ?ks vs)) p
          = Some (Tensor (concat_arrays (map (\<lambda>e. array_at e p) ?ls)))"
        unfolding p(1) by (auto simp: leaves_batched_def)
    qed
    with res None show ?thesis
      unfolding batch_post_def by simp
  qed
qed

lemma batch_NdArray_case:
  assumes pre: "batch_pre C (NdArray a # rest)"
  shows "batch_post C (NdArray a # rest)"
proof -
  let ?ls = "NdArray a # rest"
  define arrs where "arrs = map (\<lambda>e. array_at e []) ?ls"
  have el: "\<exists>b. e = NdArray b \<and> shape b \<noteq> [] \<and> tl (shape b) = tl (shape a)" if "e \<in> set ?ls" for e
  proof -
    from pre that have "same_structure (NdArray a) e"
      by (auto simp: batch_pre_def)
    then show ?thesis by (cases e) auto
  qed
  have ls: "?ls = map NdArray arrs"
  proof -
    have "NdArray (array_at e []) = e" if "e \<in> set ?ls" for e
      using el [OF that] by (auto simp: array_at_def)
    then have "map (\<lambda>e. NdArray (array_at e [])) ?ls = ?ls"
      by (intro map_idI) 
    then show ?thesis
      unfolding arrs_def map_map o_def by simp
  qed
  have ne: "arrs \<noteq> []" and hd: "hd arrs = a"
    by (simp_all add: arrs_def array_at_def)
  have comp: "\<forall>b \<in> set arrs. shape b \<noteq> [] \<and> tl (shape b) = tl (shape (hd arrs))"
  proof
    fix b assume "b \<in> set arrs"
    then obtain e where e: "e \<in> set ?ls" "b = array_at e []"
      unfolding arrs_def by auto
    with el [OF e(1)] show "shape b \<noteq> [] \<and> tl (shape b) = tl (shape (hd arrs))"
      unfolding hd by (auto simp: array_at_def)
  qed
  have "np_concatenate ?ls = Inr (NdArray (concat_arrays arrs))"
    using np_concatenate_compatible [OF ne comp] ls by simp
  then have res: "batch_recursive_objects C ?ls False = Inr (NdArray (concat_arrays arrs))"
    by (simp add: batch_leaf_def)
  have sa: "shape a \<noteq> []"
    using el [of "NdArray a"] by simp
  have "leaves_batched (NdArray a) (\<lambda>p. map (\<lambda>e. array_at e p) ?ls) (NdArray (concat_arrays arrs))"
    unfolding leaves_batched_def
  proof (intro conjI allI impI)
    show "same_structure (NdArray a) (NdArray (concat_arrays arrs))"
      using sa hd by (simp add: concat_arrays_def)
  next
    fix p a' assume "at_path (NdArray a) p = Some (NdArray a')"
    then have "p = []" by (cases p) auto
    then show "at_path (NdArray (concat_arrays arrs)) p
        = Some (NdArray (concat_arrays (map (\<lambda>e. array_at e p) ?ls)))"
      by (simp add: arrs_def)
  next
    fix p a' assume "at_path (NdArray a) p = Some (Tensor a')"
    then show "at_path (NdArray (concat_arrays arrs)) p
        = Some (Tensor (concat_arrays (map (\<lambda>e. array_at e p) ?ls)))"
      by (cases p) auto
  qed
  with res show ?thesis
    unfolding batch_post_def by (simp add: unsupported_leaf_def)
qed

lemma batch_Tensor_case:
  assumes pre: "batch_pre C (Tensor a # rest)"
  shows "batch_post C (Tensor a # rest)"
proof -
  let ?ls = "Tensor a # rest"
  define arrs where "arrs = map (\<lambda>e. array_at e []) ?ls"
  have th: "th_bound C"
    using pre by (auto simp: batch_pre_def numpy_leaf_def)
  have el: "\<exists>b. e = Tensor b \<and> wf_ndarray b \<and> shape b \<noteq> [] \<and> tl (shape b) = tl (shape a)"
    if "e \<in> set ?ls" for e
  proof -
    from pre that have "same_structure (Tensor a) e" "wf_obj e"
      by (auto simp: batch_pre_def)
    then show ?thesis by (cases e) auto
  qed
  have ls: "?ls = map Tensor arrs"
  proof -
    have "Tensor (array_at e []) = e" if "e \<in> set ?ls" for e
      using el [OF that] by (auto simp: array_at_def)
    then have "map (\<lambda>e. Tensor (array_at e [])) ?ls = ?ls"
      by (intro map_idI) 
    then show ?thesis
      unfolding arrs_def map_map o_def by simp
  qed
  have ne: "arrs \<noteq> []" and hd: "hd arrs = a"
    by (simp_all add: arrs_def array_at_def)
  have wf: "\<forall>b \<in> set arrs. wf_ndarray b"
  proof
    fix b assume "b \<in> set arrs"
    then obtain e where e: "e \<in> set ?ls" "b = array_at e []"
      unfolding arrs_def by auto
    with el [OF e(1)] show "wf_ndarray b"
      by (auto simp: array_at_def)
  qed
  have comp: "\<forall>b \<in> set arrs. shape b \<noteq> [] \<and> tl (shape b) = tl (shape (hd arrs))"
  proof
    fix b assume "b \<in> set arrs"
    then obtain e where e: "e \<in> set ?ls" "b = array_at e []"
      unfolding arrs_def by auto
    with el [OF e(1)] show "shape b \<noteq> [] \<and> tl (shape b) = tl (shape (hd arrs))"
      unfolding hd by (auto simp: array_at_def)
  qed
  have "th_cat ?ls = Inr (Tensor (concat_arrays arrs))"
    using th_cat_compatible [OF ne wf comp] ls by simp
  then have res: "batch_recursive_objects C ?ls False = Inr (Tensor (concat_arrays arrs))"
    using th by (simp add: batch_leaf_def)
  have sa: "shape a \<noteq> []"
    using el [of "Tensor a"] by simp
  have "leaves_batched (Tensor a) (\<lambda>p. map (\<lambda>e. array_at e p) ?ls) (Tensor (concat_arrays arrs))"
    unfolding leaves_batched_def
  proof (intro conjI allI impI)
    show "same_structure (Tensor a) (Tensor (concat_arrays arrs))"
      using sa hd by (simp add: concat_arrays_def)
  next
    fix p a' assume "at_path (Tensor a) p = Some (Tensor a')"
    then have "p = []" by (cases p) auto
    then show "at_path (Tensor (concat_arrays arrs)) p
        = Some (Tensor (concat_arrays (map (\<lambda>e. array_at e p) ?ls)))"
      by (simp add: arrs_def)
  next
    fix p a' assume "at_path (Tensor a) p = Some (NdArray a')"
    then show "at_path (Tensor (concat_arrays arrs)) p
        = Some (NdArray (concat_arrays (map (\<lambda>e. array_at e p) ?ls)))"
      by (cases p) auto
  qed
  with res show ?thesis
    unfolding batch_post_def by (simp add: unsupported_leaf_def)
qed

lemma batch_NoneV_case: "batch_post C (NoneV # rest)"
proof -
  have "leaves_batched NoneV (\<lambda>p. map (\<lambda>e. array_at e p) (NoneV # rest)) NoneV"
    unfolding leaves_batched_def
  proof (intro conjI allI impI)
    show "same_structure NoneV NoneV" by simp
  next
    fix p a' assume "at_path NoneV p = Some (NdArray a')"
    then show "at_path NoneV p = Some (NdArray (concat_arrays (map (\<lambda>e. array_at e p) (NoneV # rest))))"
      by (cases p) auto
  next
    fix p a' assume "at_path NoneV p = Some (Tensor a')"
    then show "at_path NoneV p = Some (Tensor (concat_arrays (map (\<lambda>e. array_at e p) (NoneV # rest))))"
      by (cases p) auto
  qed
  then show ?thesis
    unfolding batch_post_def by (simp add: unsupported_leaf_def)
qed

lemma batch_Str_case:
  assumes pre: "batch_pre C (Str s # rest)"
  shows "batch_post C (Str s # rest)"
proof -
  have th: "th_bound C"
    using pre by (auto simp: batch_pre_def numpy_leaf_def)
  then show ?thesis
    unfolding batch_post_def by (simp add: unsupported_leaf_def batch_leaf_def)
qed

lemma batch_IntV_case:
  assumes pre: "batch_pre C (IntV i # rest)"
  shows "batch_post C (IntV i # rest)"
proof -
  have th: "th_bound C"
    using pre by (auto simp: batch_pre_def numpy_leaf_def)
  then show ?thesis
    unfolding batch_post_def by (simp add: unsupported_leaf_def batch_leaf_def)
qed

lemma batch_general:
  fixes check_shape :: bool
  shows "batch_pre C ls \<longrightarrow> batch_post C ls"
proof (induction C ls check_shape rule: batch_recursive_objects.induct)
  case (1 C check_shape)
  show ?case by (simp add: batch_pre_def)
next
  case (2 C items rest check_shape)
  show ?case
  proof
    assume pre: "batch_pre C (Dict items # rest)"
    show "batch_post C (Dict items # rest)"
      by (rule batch_dict_case [OF pre]) (rule 2; assumption)
  qed
next
  case (3 C xs rest check_shape)
  show ?case
  proof
    assume pre: "batch_pre C (ListV xs # rest)"
    show "batch_post C (ListV xs # rest)"
      by (rule batch_ListV_case [OF pre]) (rule 3; assumption)
  qed
next
  case (4 C c fs rest check_shape)
  show ?case
  proof
    assume pre: "batch_pre C (NamedTuple c fs # rest)"
    show "batch_post C (NamedTuple c fs # rest)"
      by (rule batch_NamedTuple_case [OF pre]) (rule 4; assumption)
  qed
next
  case (5 C xs rest check_shape)
  show ?case
  proof
    assume pre: "batch_pre C (TupleV xs # rest)"
    show "batch_post C (TupleV xs # rest)"
      by (rule batch_TupleV_case [OF pre]) (rule 5; assumption)
  qed
next
  case (6 C rest check_shape)
  show ?case by (simp add: batch_NoneV_case)
next
  case (7 C a rest check_shape)
  show ?case by (simp add: batch_NdArray_case)
next
  case (8 C a rest check_shape)
  show ?case by (simp add: batch_Tensor_case)
next
  case (9 C s rest check_shape)
  show ?case by (simp add: batch_Str_case)
next
  case (10 C i rest check_shape)
  show ?case by (simp add: batch_IntV_case)
qed


lemma record_facts:
  "wf_obj record_1" "wf_obj record_2" "same_structure record_1 record_1"
  "same_structure record_1 record_2"
  "leaves record_1 = [NdArray arr_1x2, NdArray arr_1x2, NdArray arr_2x2, NoneV]"
  by (auto simp: record_1_def record_2_def wf_ndarray_def arr_1x2_def arr_2x2_def)

section \<open>Claims about batching\<close>

text \<open>
  Claim C5: for \<open>n \<ge> 1\<close> structurally identical records whose corresponding leaves are
  arrays with batch sizes \<open>b\<^sub>1, \<dots>, b\<^sub>n\<close>, the batcher returns a record of the same
  structure (keys, lengths, arities, fields, \<^verbatim>\<open>None\<close> markers), and at every position of
  a leaf array it holds the concatenation of the records' arrays at that position along
  the first axis: its batch size is the sum of the \<open>b\<^sub>i\<close>, its other dimensions are
  unchanged, its elements are the records' elements in order.  Structurally identical
  is \<open>same_structure\<close>; the records are well-formed values; and either the module binds
  \<^verbatim>\<open>th\<close> or the leaves are numpy arrays and \<^verbatim>\<open>None\<close> only.
\<close>

theorem C5_batch_shape_law:
  assumes "ls \<noteq> []"
    and "\<forall>e \<in> set ls. wf_obj e \<and> same_structure (hd ls) e"
    and "\<forall>x \<in> set (leaves (hd ls)). \<not> unsupported_leaf x"
    and "th_bound C \<or> list_all numpy_leaf (leaves (hd ls))"
  shows "\<exists>r. batch_recursive_objects C ls False = Inr r
      \<and> same_structure (hd ls) r
      \<and> (\<forall>p a. at_path (hd ls) p = Some (NdArray a) \<longrightarrow>
            at_path r p
              = Some (NdArray \<lparr>shape = sum_list (map (\<lambda>e. hd (shape (array_at e p))) ls) # tl (shape a),
                                data = concat (map (\<lambda>e. data (array_at e p)) ls)\<rparr>))
      \<and> (\<forall>p a. at_path (hd ls) p = Some (Tensor a) \<longrightarrow>
            at_path r p
              = Some (Tensor \<lparr>shape = sum_list (map (\<lambda>e. hd (shape (array_at e p))) ls) # tl (shape a),
                               data = concat (map (\<lambda>e. data (array_at e p)) ls)\<rparr>))"
proof -
  have pre: "batch_pre C ls"
    using assms(1,2,4) by (simp add: batch_pre_def)
  have none: "find unsupported_leaf (leaves (hd ls)) = None"
    using assms(3) by (simp add: find_None_iff)
  from batch_general pre have "batch_post C ls" by blast
  with none obtain r where r: "batch_recursive_objects C ls False = Inr r"
    and lb: "leaves_batched (hd ls) (\<lambda>p. map (\<lambda>e. array_at e p) ls) r"
    unfolding batch_post_def by auto
  have ca: "concat_arrays (map (\<lambda>e. array_at e p) ls)
      = \<lparr>shape = sum_list (map (\<lambda>e. hd (shape (array_at e p))) ls) # tl (shape a),
         data = concat (map (\<lambda>e. data (array_at e p)) ls)\<rparr>"
    if "at_path (hd ls) p = Some (NdArray a) \<or> at_path (hd ls) p = Some (Tensor a)" for p a
  proof -
    have "hd (map (\<lambda>e. array_at e p) ls) = a"
      using that assms(1) by (auto simp: hd_map array_at_def)
    then show ?thesis
      by (simp add: concat_arrays_def o_def)
  qed
  from lb have "same_structure (hd ls) r"
    and "\<forall>p a. at_path (hd ls) p = Some (NdArray a) \<longrightarrow>
            at_path r p = Some (NdArray (concat_arrays (map (\<lambda>e. array_at e p) ls)))"
    and "\<forall>p a. at_path (hd ls) p = Some (Tensor a) \<longrightarrow>
            at_path r p = Some (Tensor (concat_arrays (map (\<lambda>e. array_at e p) ls)))"
    unfolding leaves_batched_def by blast+
  with r ca show ?thesis
    by (intro exI [of _ r]) auto
qed

text \<open>
  Witness for C5: two records with the keys \<open>a\<close>, \<open>t\<close> and \<open>n\<close> in different orders, arrays
  of batch sizes 1 and 2, a tuple and a \<^verbatim>\<open>None\<close>, in a module where \<^verbatim>\<open>th\<close> is not bound.
\<close>

theorem C5_batch_shape_law_witness:
  "\<exists>r. batch_recursive_objects const_without_th [record_1, record_2] False = Inr r
     \<and> at_path r [Key ''a''] = Some (NdArray \<lparr>shape = [3, 2], data = [1, 2, 3, 4, 5, 6]\<rparr>)
     \<and> at_path r [Key ''t'', Index 1]
        = Some (NdArray \<lparr>shape = [4, 2], data = [3, 4, 5, 6, 3, 4, 5, 6]\<rparr>)"
proof -
  have h1: "[record_1, record_2] \<noteq> []" by simp
  have h2: "\<forall>e \<in> set [record_1, record_2]. wf_obj e \<and> same_structure (hd [record_1, record_2]) e"
    by (simp add: record_facts)
  have h3: "\<forall>x \<in> set (leaves (hd [record_1, record_2])). \<not> unsupported_leaf x"
    by (simp add: record_facts unsupported_leaf_def)
  have h4: "th_bound const_without_th \<or> list_all numpy_leaf (leaves (hd [record_1, record_2]))"
    by (simp add: record_facts numpy_leaf_def)
  from C5_batch_shape_law [OF h1 h2 h3 h4] obtain r
    where r: "batch_recursive_objects const_without_th [record_1, record_2] False = Inr r"
      and p: "\<forall>p a. at_path (hd [record_1, record_2]) p = Some (NdArray a) \<longrightarrow>
            at_path r p
              = Some (NdArray \<lparr>shape = sum_list (map (\<lambda>e. hd (shape (array_at e p))) [record_1, record_2]) # tl (shape a),
                                data = concat (map (\<lambda>e. data (array_at e p)) [record_1, record_2])\<rparr>)"
    by blast
  have a: "at_path (hd [record_1, record_2]) [Key ''a''] = Some (NdArray arr_1x2)"
    by (simp add: record_1_def)
  have t: "at_path (hd [record_1, record_2]) [Key ''t'', Index 1] = Some (NdArray arr_2x2)"
    by (simp add: record_1_def)
  from p a have "at_path r [Key ''a''] = Some (NdArray \<lparr>shape = [3, 2], data = [1, 2, 3, 4, 5, 6]\<rparr>)"
    by (simp add: array_at_def record_1_def record_2_def arr_1x2_def arr_2x2_def)
  moreover from p t have "at_path r [Key ''t'', Index 1]
        = Some (NdArray \<lparr>shape = [4, 2], data = [3, 4, 5, 6, 3, 4, 5, 6]\<rparr>)"
    by (simp add: array_at_def record_1_def record_2_def arr_1x2_def arr_2x2_def)
  ultimately show ?thesis
    using r by blast
qed

text \<open>
  The plain string as the record itself: the call \<^verbatim>\<open>batch_recursive_objects(ls)\<close> raises
  the \<^verbatim>\<open>ValueError\<close> \<open>Unsupported type\<close>.  With the optional shape check switched on,
  the assertion of line 349 reads \<^verbatim>\<open>e.shape\<close> before the type is looked at, and
  \<^verbatim>\<open>AttributeError\<close> comes first.
\<close>

lemma batch_plain_string:
  "batch_recursive_objects example_const [Str ''abc''] True = Inl (AttributeError ''shape'')
   \<and> batch_recursive_objects example_const [Str ''abc''] False
     = Inl (ValueError ''Unsupported type: str'')"
  by (simp add: batch_leaf_def check_shapes_def shape_attr_def example_const_def type_name_def)



section \<open>The round trip through the policy form\<close>









lemma linear_grid_fixed_point:
  assumes "quantization_scheme q = LINEAR" and "0 < camera_binsize q"
    and "x = of_int k * of_int (camera_binsize q) - of_int (camera_maxval q)"
    and "0 \<le> k" and "k * camera_binsize q \<le> 2 * camera_maxval q"
  shows "undiscretize_elem q (of_int (discretize_elem q x)) = x"
proof -
  define b :: real where "b = of_int (camera_binsize q)"
  define m :: real where "m = of_int (camera_maxval q)"
  have b: "0 < b" using assms(2) by (simp add: b_def)
  have lin: "quantization_scheme q \<noteq> MU_LAW"
    using assms(1) by (simp add: LINEAR_def MU_LAW_def)
  have x: "x = of_int k * b - m"
    using assms(3) by (simp add: b_def m_def)
  have "0 \<le> of_int k * b"
    using assms(4) b by simp
  moreover have "of_int k * b \<le> 2 * m"
  proof -
    have "(of_int (k * camera_binsize q) :: real) \<le> of_int (2 * camera_maxval q)"
      using assms(5) by (simp only: of_int_le_iff)
    then show ?thesis by (simp add: b_def m_def)
  qed
  ultimately have clip: "np_clip x (- m) m = x"
    unfolding np_clip_def x by (simp add: min_def max_def)
  have "discretize_elem q x = np_round ((x + m) / b)"
    using lin clip unfolding discretize_elem_def Let_def b_def m_def by simp
  moreover have "(x + m) / b = of_int k"
    using b by (simp add: x)
  ultimately have d: "discretize_elem q x = k"
    by simp
  have "undiscretize_elem q (of_int k) = of_int k * b - m"
    using lin unfolding undiscretize_elem_def Let_def b_def m_def by simp
  then show ?thesis
    by (simp only: d x [symmetric])
qed




end
